theory Spec2Isabelle
  imports Main "HOL-Library.Finite_Map" "HOL-Library.Sublist"
begin

section \<open>Image definitions (images.go)\<close>

text \<open>
  The struct \<open>ImageDefinition\<close> of images.go, field by field, and the struct
  \<open>imageConfiguration\<close> that \<open>json.Unmarshal\<close> fills from config.json (its only
  field is the JSON property \<open>inherits\<close>).
\<close>

record ImageDefinition =
  Name :: string
  ImageDir :: string
  ImagesDir :: string
  Inherits :: string

record imageConfiguration =
  ConfigInherits :: string

text \<open>
  Go's \<open>error\<close> values. Every \<open>fmt.Errorf\<close> of images.go is a constructor carrying the
  arguments of its format string; \<open>SystemError\<close> stands for an error produced outside
  this package (os, ioutil, json, exec.Cmd.Run, the utils package). \<open>error_message\<close>
  renders the text the source formats.
\<close>

datatype error =
    NoImageProvided
  | NoImagesDirProvided
  | ImageDirMissing string
  | NoConfigurationFile string
  | NoInheritProperty string
  | CyclicalDependency string
  | UnresolvedParent string string
  | SystemError string

fun error_message :: "error \<Rightarrow> string" where
  "error_message NoImageProvided = ''An image must be provided''"
| "error_message NoImagesDirProvided = ''An image directory must be provided''"
| "error_message (ImageDirMissing d) = ''Image directory '' @ d @ '' doesn't exist''"
| "error_message (NoConfigurationFile p) = ''No configuration file exists at '' @ p"
| "error_message (NoInheritProperty n) = ''No inherit property given for image '' @ n"
| "error_message (CyclicalDependency n) = ''Image '' @ n @ '' has a cyclical dependency''"
| "error_message (UnresolvedParent n p) =
     ''Image defintion '' @ n @ '' inherits from '' @ p @ '', which doesn't exist''"
| "error_message (SystemError m) = m"

text \<open>\<open>strings.HasPrefix(s, "external:")\<close>.\<close>

definition isExternal :: "string \<Rightarrow> bool" where
  "isExternal s = prefix ''external:'' s"

section \<open>verifyDependencies\<close>

text \<open>
  \<open>verifyDependencies\<close> of images.go. The map of definitions is a Go map, hence
  finite: an \<open>fmap\<close>. The current stack is a Go \<open>map[string]bool\<close> that may be
  \<open>nil\<close> (\<open>None\<close>); the source replaces a nil stack by an empty map, tests membership
  by the presence of the key, and stores \<open>true\<close> under the image's name. The stack is
  passed down the only recursive call and never read again by the caller, so passing the
  updated map is what the in-place update does.

  The recursion follows the \<open>Inherits\<close> fields for as long as the source does; on a map
  whose keys are not the names of the definitions stored under them it need not return,
  so the function is partial: \<open>None\<close> is "does not return", \<open>Some (Inr ())\<close> is the
  \<open>nil\<close> error, \<open>Some (Inl e)\<close> the error \<open>e\<close>.
\<close>

partial_function (option) verifyDependencies ::
  "ImageDefinition \<Rightarrow> (string, ImageDefinition) fmap \<Rightarrow> (string, bool) fmap option
     \<Rightarrow> (error + unit) option"
where
  "verifyDependencies imageDefinition imageDefinitions currentStack =
     (case (case currentStack of None \<Rightarrow> fmempty | Some s \<Rightarrow> s) of stack \<Rightarrow>
        if isExternal (Inherits imageDefinition) then Some (Inr ())
        else if fmlookup stack (Inherits imageDefinition) \<noteq> None
          then Some (Inl (CyclicalDependency (Name imageDefinition)))
        else (case fmlookup imageDefinitions (Inherits imageDefinition) of
                Some parent \<Rightarrow>
                  verifyDependencies parent imageDefinitions
                    (Some (fmupd (Name imageDefinition) True stack))
              | None \<Rightarrow>
                  Some (Inl (UnresolvedParent (Name imageDefinition)
                               (Inherits imageDefinition)))))"

text \<open>
  The same function with its recursion depth counted: \<open>verifyDependencies_depth n\<close>
  allows \<open>n\<close> nested activations (the top-level call included) and yields \<open>None\<close>
  when one more would be needed.
\<close>

fun verifyDependencies_depth ::
  "nat \<Rightarrow> ImageDefinition \<Rightarrow> (string, ImageDefinition) fmap \<Rightarrow> (string, bool) fmap option
     \<Rightarrow> (error + unit) option"
where
  "verifyDependencies_depth 0 imageDefinition imageDefinitions currentStack = None"
| "verifyDependencies_depth (Suc n) imageDefinition imageDefinitions currentStack =
     (case (case currentStack of None \<Rightarrow> fmempty | Some s \<Rightarrow> s) of stack \<Rightarrow>
        if isExternal (Inherits imageDefinition) then Some (Inr ())
        else if fmlookup stack (Inherits imageDefinition) \<noteq> None
          then Some (Inl (CyclicalDependency (Name imageDefinition)))
        else (case fmlookup imageDefinitions (Inherits imageDefinition) of
                Some parent \<Rightarrow>
                  verifyDependencies_depth n parent imageDefinitions
                    (Some (fmupd (Name imageDefinition) True stack))
              | None \<Rightarrow>
                  Some (Inl (UnresolvedParent (Name imageDefinition)
                               (Inherits imageDefinition)))))"

text \<open>
  \<open>BuildAllDefinitions\<close> stores every definition under its own name
  (\<open>imageDefinitions[imageName] = *imageDefinition\<close>, where \<open>BuildDefinition\<close> has set
  \<open>image.Name = imageName\<close>): the definition sets it validates are keyed by name.
\<close>

definition keyedByName :: "(string, ImageDefinition) fmap \<Rightarrow> bool" where
  "keyedByName defs = (\<forall>k d. fmlookup defs k = Some d \<longrightarrow> Name d = k)"

text \<open>
  The inheritance relation of a definition set, for stating what a cycle is: an edge leads
  from the name of a definition to the image it inherits from, unless that parent is an
  external reference. A set is resolvable when every such parent is a key of the set.
\<close>

definition inheritsEdges :: "(string, ImageDefinition) fmap \<Rightarrow> (string \<times> string) set" where
  "inheritsEdges defs =
     {(Name d, Inherits d) | d. d \<in> fmran' defs \<and> \<not> isExternal (Inherits d)}"

definition resolvable :: "(string, ImageDefinition) fmap \<Rightarrow> bool" where
  "resolvable defs =
     (\<forall>d \<in> fmran' defs. \<not> isExternal (Inherits d) \<longrightarrow> Inherits d \<in> fmdom' defs)"

section \<open>Reading definitions from disk\<close>

text \<open>
  \<open>BuildDefinition\<close>, \<open>loadImageConfiguration\<close> and \<open>BuildAllDefinitions\<close> only read.
  What they read comes from outside images.go and is a parameter of the model:
  the helpers of the utils package (\<open>ExpandPath\<close>, \<open>DirectoryExists\<close>, \<open>FileExists\<close>,
  \<open>GetChildDirectories\<close>), \<open>ioutil.ReadFile\<close>, \<open>json.Unmarshal\<close> into an
  \<open>imageConfiguration\<close> (a manifest without the \<open>inherits\<close> property leaves the field
  at Go's zero value, the empty string), \<open>path.Join\<close> on two arguments, and the order in
  which \<open>range\<close> visits the values of the map of definitions, which Go leaves unspecified.
\<close>

record filesystem =
  ExpandPath :: "string \<Rightarrow> string"
  DirectoryExists :: "string \<Rightarrow> bool"
  FileExists :: "string \<Rightarrow> bool"
  GetChildDirectories :: "string \<Rightarrow> error + string list"
  ReadFile :: "string \<Rightarrow> error + string"
  Unmarshal :: "string \<Rightarrow> error + imageConfiguration"
  pathJoin :: "string \<Rightarrow> string \<Rightarrow> string"
  rangeOrder :: "(string, ImageDefinition) fmap \<Rightarrow> ImageDefinition list"

definition loadImageConfiguration ::
  "filesystem \<Rightarrow> ImageDefinition \<Rightarrow> error + imageConfiguration" where
  "loadImageConfiguration fs img =
     (let imageConfigurationPath = pathJoin fs (ImageDir img) ''config.json'' in
      if \<not> FileExists fs imageConfigurationPath
        then Inl (NoConfigurationFile imageConfigurationPath)
      else (case ReadFile fs imageConfigurationPath of
              Inl err \<Rightarrow> Inl err
            | Inr jsonData \<Rightarrow>
                (case Unmarshal fs jsonData of
                   Inl err \<Rightarrow> Inl err
                 | Inr imageConfiguration \<Rightarrow>
                     if length (ConfigInherits imageConfiguration) = 0
                       then Inl (NoInheritProperty (Name img))
                     else Inr imageConfiguration)))"

definition BuildDefinition ::
  "filesystem \<Rightarrow> string \<Rightarrow> string \<Rightarrow> error + ImageDefinition" where
  "BuildDefinition fs imageName imagesDir =
     (if length imageName = 0 then Inl NoImageProvided
      else if length imagesDir = 0 then Inl NoImagesDirProvided
      else
        (let img = \<lparr> Name = imageName,
                     ImageDir = pathJoin fs (ExpandPath fs imagesDir) imageName,
                     ImagesDir = ExpandPath fs imagesDir,
                     Inherits = [] \<rparr> in
         if \<not> DirectoryExists fs (ImageDir img) then Inl (ImageDirMissing (ImageDir img))
         else (case loadImageConfiguration fs img of
                 Inl err \<Rightarrow> Inl err
               | Inr imageConfiguration \<Rightarrow>
                   Inr (img\<lparr> Inherits := ConfigInherits imageConfiguration \<rparr>))))"

text \<open>
  The two loops of \<open>BuildAllDefinitions\<close>: \<open>buildDefinitions\<close> fills the map in the
  order of the directory listing and returns at the first definition that fails to load;
  \<open>verifyAll\<close> validates the definitions in the order \<open>range\<close> yields them, each with
  a \<open>nil\<close> stack, and returns at the first error.
\<close>

fun buildDefinitions ::
  "filesystem \<Rightarrow> string \<Rightarrow> string list \<Rightarrow> (string, ImageDefinition) fmap
     \<Rightarrow> error + (string, ImageDefinition) fmap" where
  "buildDefinitions fs imagesDir [] imageDefinitions = Inr imageDefinitions"
| "buildDefinitions fs imagesDir (imageName # rest) imageDefinitions =
     (case BuildDefinition fs imageName imagesDir of
        Inl err \<Rightarrow> Inl err
      | Inr imageDefinition \<Rightarrow>
          buildDefinitions fs imagesDir rest (fmupd imageName imageDefinition imageDefinitions))"

fun verifyAll ::
  "ImageDefinition list \<Rightarrow> (string, ImageDefinition) fmap \<Rightarrow> (error + unit) option" where
  "verifyAll [] imageDefinitions = Some (Inr ())"
| "verifyAll (imageDefinition # rest) imageDefinitions =
     (case verifyDependencies imageDefinition imageDefinitions None of
        None \<Rightarrow> None
      | Some (Inl err) \<Rightarrow> Some (Inl err)
      | Some (Inr u) \<Rightarrow> verifyAll rest imageDefinitions)"

definition BuildAllDefinitions ::
  "filesystem \<Rightarrow> string \<Rightarrow> (error + (string, ImageDefinition) fmap) option" where
  "BuildAllDefinitions fs imagesDir =
     (if length imagesDir = 0 then Some (Inl NoImagesDirProvided)
      else (case GetChildDirectories fs imagesDir of
              Inl err \<Rightarrow> Some (Inl err)
            | Inr imageNames \<Rightarrow>
                (case buildDefinitions fs imagesDir imageNames fmempty of
                   Inl err \<Rightarrow> Some (Inl err)
                 | Inr imageDefinitions \<Rightarrow>
                     (case verifyAll (rangeOrder fs imageDefinitions) imageDefinitions of
                        None \<Rightarrow> None
                      | Some (Inl err) \<Rightarrow> Some (Inl err)
                      | Some (Inr u) \<Rightarrow> Some (Inr imageDefinitions)))))"

section \<open>The world outside the program\<close>

text \<open>
  Building and extracting act on the host and on a container backend. Every such act is
  an \<open>action\<close>; the \<open>trace\<close> of a world lists the actions performed so far, oldest
  first, each with the error it returned (\<open>Inr ()\<close> is Go's \<open>nil\<close>).
  \<open>Exec program args\<close> is \<open>runCommand(program, args...)\<close>, that is
  \<open>exec.Command(program, args...).Run()\<close> with the caller's standard streams.
  The remaining constructors are the calls of images.go into os and utils, and the calls
  of the containerd-based \<open>Session.ExtractImage\<close> into the containerd client, the
  snapshotter, the workspace package and utils.
\<close>

datatype action =
    Exec string "string list"
  | MkdirAll string
  | CleanDirectory string
  | WithLease
  | ReleaseLease
  | GetImage string
  | NewWorkspace string
  | DestroyWorkspace string
  | CreateTempMounts string
  | CreateSnapshot string string
  | DeleteSnapshot string
  | RunContainer string string
  | Mounts string
  | TempMount string
  | Unmount string
  | CopyFile string string

record world =
  dirs :: "string set"
  files :: "string \<rightharpoonup> string"
  trace :: "(action \<times> (error + unit)) list"

text \<open>
  What the program cannot decide is a parameter: \<open>outcome\<close> says whether an action
  fails, given everything performed before it; \<open>Join\<close> is \<open>path.Join\<close> on two
  arguments; \<open>beneath d p\<close> says that path \<open>p\<close> lies inside directory \<open>d\<close>;
  \<open>containerFile src\<close> is the content that \<open>docker cp\<close> reads from the container
  path \<open>src\<close> (\<open>container:path\<close>).
\<close>

record system =
  outcome :: "(action \<times> (error + unit)) list \<Rightarrow> action \<Rightarrow> error + unit"
  Join :: "string \<Rightarrow> string \<Rightarrow> string"
  beneath :: "string \<Rightarrow> string \<Rightarrow> bool"
  containerFile :: "string \<Rightarrow> string"

text \<open>
  Modelled from the spec: the utils package (\<open>DirectoryExists\<close>, \<open>CleanDirectory\<close>,
  \<open>CopyFile\<close>) is not among the sources. The spec gives
  \<open>CleanDirectory(path)\<close> as "removing all contents without removing the directory
  itself", \<open>CopyFile(src, dst)\<close> as copying a file, "creating intermediate directories
  as needed", and \<open>DirectoryExists\<close> as a predicate; \<open>DirectoryExists p\<close> is
  \<open>p \<in> dirs w\<close> below. \<open>os.MkdirAll\<close> makes the directory exist, and a successful
  \<open>docker cp container:src dst\<close> writes the container's file to the host path
  \<open>dst\<close>. An action that fails leaves directories and files as they were; no other
  action touches them.
\<close>

definition dirsEffect :: "'s system_scheme \<Rightarrow> action \<Rightarrow> string set \<Rightarrow> string set" where
  "dirsEffect sys a ds =
     (case a of
        MkdirAll p \<Rightarrow> insert p ds
      | CleanDirectory d \<Rightarrow> {q \<in> ds. q = d \<or> \<not> beneath sys d q}
      | _ \<Rightarrow> ds)"

definition filesEffect ::
  "'s system_scheme \<Rightarrow> action \<Rightarrow> (string \<rightharpoonup> string) \<Rightarrow> (string \<rightharpoonup> string)" where
  "filesEffect sys a fs =
     (case a of
        CleanDirectory d \<Rightarrow> (\<lambda>p. if beneath sys d p then None else fs p)
      | CopyFile src dst \<Rightarrow>
          (case fs src of None \<Rightarrow> fs | Some content \<Rightarrow> fs(dst \<mapsto> content))
      | Exec program args \<Rightarrow>
          (case args of
             [verb, src, dst] \<Rightarrow>
               if program = ''docker'' \<and> verb = ''cp'' then fs(dst \<mapsto> containerFile sys src)
               else fs
           | _ \<Rightarrow> fs)
      | _ \<Rightarrow> fs)"

definition effect :: "'s system_scheme \<Rightarrow> action \<Rightarrow> 'w world_scheme \<Rightarrow> 'w world_scheme" where
  "effect sys a w = w\<lparr> dirs := dirsEffect sys a (dirs w), files := filesEffect sys a (files w) \<rparr>"

definition perform ::
  "'s system_scheme \<Rightarrow> action \<Rightarrow> 'w world_scheme \<Rightarrow> (error + unit) \<times> 'w world_scheme" where
  "perform sys a w =
     (case outcome sys (trace w) a of
        Inl err \<Rightarrow> (Inl err, w\<lparr> trace := trace w @ [(a, Inl err)] \<rparr>)
      | Inr u \<Rightarrow> (Inr (), (effect sys a w)\<lparr> trace := trace w @ [(a, Inr ())] \<rparr>))"

text \<open>The actions a call added to the trace.\<close>

definition newTrace ::
  "'w world_scheme \<Rightarrow> 'w world_scheme \<Rightarrow> (action \<times> (error + unit)) list" where
  "newTrace w w' = drop (length (trace w)) (trace w')"

section \<open>Building and extracting through the docker command line (images.go)\<close>

definition runCommand ::
  "'s system_scheme \<Rightarrow> string \<Rightarrow> string list \<Rightarrow> 'w world_scheme
     \<Rightarrow> (error + unit) \<times> 'w world_scheme" where
  "runCommand sys program args w = perform sys (Exec program args) w"

definition destroyContainer ::
  "'s system_scheme \<Rightarrow> string \<Rightarrow> 'w world_scheme \<Rightarrow> (error + unit) \<times> 'w world_scheme" where
  "destroyContainer sys containerName w =
     (case runCommand sys ''docker'' [''stop'', containerName] w of
        (Inl err, w1) \<Rightarrow> (Inl err, w1)
      | (Inr u, w1) \<Rightarrow>
          (case runCommand sys ''docker'' [''rm'', containerName] w1 of
             (Inl err, w2) \<Rightarrow> (Inl err, w2)
           | (Inr v, w2) \<Rightarrow> (Inr (), w2)))"

text \<open>
  Once the container runs, \<open>BuildImageLayer\<close> and \<open>ExtractImage\<close> are a straight
  line of \<open>runCommand("docker", ...)\<close> calls whose arguments do not depend on earlier
  results, each followed by the same three lines:
  \<^verbatim>\<open>if err != nil { destroyContainer(tmpImageName); return err }\<close>,
  and they end in \<^verbatim>\<open>return destroyContainer(tmpImageName)\<close>.
  \<open>runInContainer\<close> is that control flow over the list of argument vectors, in the
  order of the source; the result of the \<open>destroyContainer\<close> call after a failure is
  dropped, as the source drops it.
\<close>

fun runInContainer ::
  "'s system_scheme \<Rightarrow> string \<Rightarrow> string list list \<Rightarrow> 'w world_scheme
     \<Rightarrow> (error + unit) \<times> 'w world_scheme" where
  "runInContainer sys tmpImageName [] w = destroyContainer sys tmpImageName w"
| "runInContainer sys tmpImageName (args # rest) w =
     (case runCommand sys ''docker'' args w of
        (Inl err, w1) \<Rightarrow> (Inl err, snd (destroyContainer sys tmpImageName w1))
      | (Inr u, w1) \<Rightarrow> runInContainer sys tmpImageName rest w1)"

text \<open>\<open>tmpImageName\<close> of \<open>BuildImageLayer\<close>.\<close>

definition buildingName :: "ImageDefinition \<Rightarrow> string" where
  "buildingName imageDefinition = ''darch-building-'' @ Name imageDefinition"

text \<open>
  The shell line that registers a bind mount with arch-chroot. The source writes it twice
  as a Go string literal: \<^verbatim>\<open>echo\<close>, then in double quotes
  \<^verbatim>\<open>chroot_add_mount\<close>, the mount source, the target between two
  backslash-escaped double quotes and \<^verbatim>\<open>--bind\<close>, then the redirection
  \<^verbatim>\<open>>> /arch-chroot-customizations\<close>. \<open>CHR 0x22\<close> is the double quote and
  \<open>CHR 0x5C\<close> the backslash.
\<close>

definition chrootAddMount :: "string \<Rightarrow> string \<Rightarrow> string" where
  "chrootAddMount src dst =
     ''echo '' @ [CHR 0x22] @ ''chroot_add_mount '' @ src @ '' '' @ [CHR 0x5C, CHR 0x22] @ dst
       @ [CHR 0x5C, CHR 0x22] @ '' --bind'' @ [CHR 0x22] @ '' >> /arch-chroot-customizations''"

text \<open>
  The arguments of the \<open>docker run\<close> that starts the build container, with the parent
  reference \<open>inherits\<close> resolved as the source does. \<open>environmentVariables\<close> is a Go
  map ranged over in an unspecified order; the model takes its entries as a list in the
  order the range yields them.
\<close>

definition startArgs :: "ImageDefinition \<Rightarrow> string \<Rightarrow> string \<Rightarrow> string list" where
  "startArgs imageDefinition buildPrefix packageCache =
     (let inherits =
            (if isExternal (Inherits imageDefinition)
               then drop (length ''external:'') (Inherits imageDefinition)
             else buildPrefix @ Inherits imageDefinition);
          tmpImageName = buildingName imageDefinition
      in [''run'', ''-d'', ''-v'', ImagesDir imageDefinition @ '':/images'']
         @ (if length packageCache > 0 then [''-v'', packageCache @ '':/packages''] else [])
         @ [''--privileged'', ''--name'', tmpImageName, inherits])"

definition buildSteps ::
  "ImageDefinition \<Rightarrow> string list \<Rightarrow> string \<Rightarrow> string \<Rightarrow> (string \<times> string) list
     \<Rightarrow> string list list" where
  "buildSteps imageDefinition tags buildPrefix packageCache environmentVariables =
     (let tmpImageName = buildingName imageDefinition in
      [ [''exec'', ''--privileged'', tmpImageName, ''mkdir'', ''/root.x86_64/images/''],
       [''exec'', ''--privileged'', tmpImageName, ''bash'', ''-c'',
        chrootAddMount ''/images'' ''/root.x86_64/images'']]
      @ (if length packageCache > 0 then
           [ [''exec'', ''--privileged'', tmpImageName, ''mkdir'', ''-p'',
             ''/root.x86_64/var/cache/pacman/pkg/''],
            [''exec'', ''--privileged'', tmpImageName, ''bash'', ''-c'',
             chrootAddMount ''/packages'' ''/root.x86_64/var/cache/pacman/pkg/'']]
         else [])
      @ [ [''exec'', ''--privileged'']
           @ concat (map (\<lambda>(environmentVariableName, environmentVariableValue).
                            [''-e'', environmentVariableName @ ''='' @ environmentVariableValue])
                       environmentVariables)
           @ [tmpImageName, ''arch-chroot-custom'', ''/root.x86_64'', ''/bin/bash'', ''-c'',
              ''cd /images/'' @ Name imageDefinition @ '' && ./script''],
         [''exec'', ''--privileged'', tmpImageName, ''rm'', ''-r'', ''/root.x86_64/images''],
         [''exec'', ''--privileged'', tmpImageName, ''rm'', ''-r'', ''-f'',
          ''/root.x86_64/var/cache/pacman/pkg/''],
         [''commit'', tmpImageName, buildPrefix @ Name imageDefinition]]
      @ map (\<lambda>tag. [''tag'', Name imageDefinition,
                      buildPrefix @ Name imageDefinition @ '':'' @ tag]) tags)"

text \<open>
  \<open>BuildImageLayer\<close>: the package cache directory is created when one is given and
  does not exist; the container is started (a failure here returns without any
  teardown, there being no container); then the steps run. The two \<open>log.Println\<close>
  calls are left out.
\<close>

definition BuildImageLayer ::
  "'s system_scheme \<Rightarrow> ImageDefinition \<Rightarrow> string list \<Rightarrow> string \<Rightarrow> string
     \<Rightarrow> (string \<times> string) list \<Rightarrow> 'w world_scheme \<Rightarrow> (error + unit) \<times> 'w world_scheme" where
  "BuildImageLayer sys imageDefinition tags buildPrefix packageCache environmentVariables w =
     (case (if length packageCache > 0 \<and> packageCache \<notin> dirs w
              then perform sys (MkdirAll packageCache) w else (Inr (), w)) of
        (Inl err, w1) \<Rightarrow> (Inl err, w1)
      | (Inr u, w1) \<Rightarrow>
          (case runCommand sys ''docker''
                  (startArgs imageDefinition buildPrefix packageCache) w1 of
             (Inl err, w2) \<Rightarrow> (Inl err, w2)
           | (Inr v, w2) \<Rightarrow>
               runInContainer sys (buildingName imageDefinition)
                 (buildSteps imageDefinition tags buildPrefix packageCache environmentVariables)
                 w2))"

text \<open>
  \<open>tmpImageName\<close> of \<open>ExtractImage\<close>:
  \<^verbatim>\<open>"darch-extracting-" + strings.Replace(name, "/", "", -1)\<close>.
\<close>

definition extractingName :: "string \<Rightarrow> string" where
  "extractingName name = ''darch-extracting-'' @ filter (\<lambda>c. c \<noteq> CHR ''/'') name"

definition extractSteps :: "'s system_scheme \<Rightarrow> string \<Rightarrow> string \<Rightarrow> string list list" where
  "extractSteps sys tmpImageName destination =
     [ [''exec'', tmpImageName, ''mksquashfs'', ''root.x86_64'', ''/rootfs.squash''],
      [''cp'', tmpImageName @ '':/rootfs.squash'', Join sys destination ''rootfs.squash''],
      [''cp'', tmpImageName @ '':/root.x86_64/boot/vmlinuz-linux'',
       Join sys destination ''vmlinuz-linux''],
      [''cp'', tmpImageName @ '':/root.x86_64/boot/initramfs-linux.img'',
       Join sys destination ''initramfs-linux.img'']]"

text \<open>
  What the three \<open>docker cp\<close> of a successful extraction add to the files of the
  host: the squashed root filesystem, the kernel and the initramfs, each under its fixed
  name joined to the destination.
\<close>

definition written :: "'s system_scheme \<Rightarrow> string \<Rightarrow> string \<Rightarrow> (string \<rightharpoonup> string) \<Rightarrow> (string \<rightharpoonup> string)" where
  "written sys name destination fs =
     fs(Join sys destination ''rootfs.squash'' \<mapsto>
          containerFile sys (extractingName name @ '':/rootfs.squash''),
        Join sys destination ''vmlinuz-linux'' \<mapsto>
          containerFile sys (extractingName name @ '':/root.x86_64/boot/vmlinuz-linux''),
        Join sys destination ''initramfs-linux.img'' \<mapsto>
          containerFile sys (extractingName name @ '':/root.x86_64/boot/initramfs-linux.img''))"

definition ExtractImage ::
  "'s system_scheme \<Rightarrow> string \<Rightarrow> string \<Rightarrow> string \<Rightarrow> 'w world_scheme
     \<Rightarrow> (error + unit) \<times> 'w world_scheme" where
  "ExtractImage sys name tag destination w =
     (let tmpImageName = extractingName name;
          imageName = (if length tag > 0 then name @ '':'' @ tag else name)
      in case (if destination \<notin> dirs w then perform sys (MkdirAll destination) w
               else (Inr (), w)) of
           (Inl err, w1) \<Rightarrow> (Inl err, w1)
         | (Inr u, w1) \<Rightarrow>
             (case perform sys (CleanDirectory destination) w1 of
                (Inl err, w2) \<Rightarrow> (Inl err, w2)
              | (Inr v, w2) \<Rightarrow>
                  (case runCommand sys ''docker''
                          [''run'', ''-d'', ''--privileged'', ''--name'', tmpImageName, imageName]
                          w2 of
                     (Inl err, w3) \<Rightarrow> (Inl err, w3)
                   | (Inr x, w3) \<Rightarrow>
                       runInContainer sys tmpImageName
                         (extractSteps sys tmpImageName destination) w3)))"

text \<open>
  Reading a trace: a docker command is a step of the build when its verb is \<open>exec\<close>,
  \<open>commit\<close> or \<open>tag\<close>. Every call of \<open>destroyContainer\<close> begins with one
  \<open>docker stop\<close> of the container, and nothing else in images.go runs that command, so
  the calls of \<open>destroyContainer\<close> are counted by their \<open>docker stop\<close>.
\<close>

definition isStep :: "string list \<Rightarrow> bool" where
  "isStep args = (case args of [] \<Rightarrow> False
                  | verb # rest \<Rightarrow> verb = ''exec'' \<or> verb = ''commit'' \<or> verb = ''tag'')"

definition destroyCalls :: "string \<Rightarrow> (action \<times> (error + unit)) list \<Rightarrow> nat" where
  "destroyCalls containerName h =
     length (filter (\<lambda>entry. fst entry = Exec ''docker'' [''stop'', containerName]) h)"

definition cleanupOnly :: "string \<Rightarrow> (action \<times> (error + unit)) list \<Rightarrow> bool" where
  "cleanupOnly c h =
     (destroyCalls c h = 1 \<and> (\<forall>args r. (Exec ''docker'' args, r) \<in> set h \<longrightarrow> \<not> isStep args))"

definition primarySurfaced ::
  "string \<Rightarrow> (error + unit) \<Rightarrow> (action \<times> (error + unit)) list \<Rightarrow> bool" where
  "primarySurfaced c res h =
     (\<forall>args err. (Exec ''docker'' args, Inl err) \<in> set h \<and> isStep args
        \<longrightarrow> res = Inl err \<and> destroyCalls c h = 1)"

section \<open>Extracting through containerd (Session.ExtractImage)\<close>

text \<open>
  The containerd client answers with values as well as errors. They are parameters too,
  each a function of the trace at the time of the call: the path of the workspace that
  \<open>workspace.NewWorkspace\<close> made, the directory at which \<open>mount.WithTempMount\<close>
  mounted the snapshot, and the entries that \<open>filepath.Walk\<close> reports for a root,
  in its order. An image handle is identified with the full name it was fetched by.
\<close>

text \<open>
  \<open>os.FileInfo\<close> as far as the walk reads it: the type bits of its \<open>os.FileMode\<close>.
  A mode without type bits is a regular file; \<open>IsDir\<close> tests the directory bit only.
\<close>

datatype FileMode =
    ModeRegular
  | ModeDir
  | ModeSymlink
  | ModeNamedPipe
  | ModeSocket
  | ModeDevice
  | ModeCharDevice
  | ModeIrregular

record FileInfo =
  BaseName :: string
  Mode :: FileMode

definition IsDir :: "FileInfo \<Rightarrow> bool" where
  "IsDir f = (Mode f = ModeDir)"

definition IsRegular :: "FileInfo \<Rightarrow> bool" where
  "IsRegular f = (Mode f = ModeRegular)"

type_synonym walkEntry = "string \<times> FileInfo \<times> (error + unit)"

text \<open>
  Modelled from the spec: \<open>utils.NewID\<close> is not among the sources. The spec calls its
  result "a freshly generated unique identifier per operation"; the model keeps the
  identifiers issued so far in the world and lets \<open>generate\<close> choose the next one from
  them. That the choice is fresh (\<open>generate ids \<notin> set ids\<close>) is a hypothesis of
  the theorems that need it.
\<close>

record runtime = system +
  generate :: "string list \<Rightarrow> string"
  workspacePath :: "(action \<times> (error + unit)) list \<Rightarrow> string"
  mountRoot :: "(action \<times> (error + unit)) list \<Rightarrow> string"
  walkEntries :: "(action \<times> (error + unit)) list \<Rightarrow> string \<Rightarrow> walkEntry list"

record session_world = world +
  issued :: "string list"

definition NewID :: "runtime \<Rightarrow> session_world \<Rightarrow> string \<times> session_world" where
  "NewID rt w =
     (let k = generate rt (issued w) in (k, w\<lparr> issued := issued w @ [k] \<rparr>))"

text \<open>
  \<open>filepath.Walk(root, fn)\<close> calls \<open>fn\<close> on the entries of the tree in order and
  stops at the first error \<open>fn\<close> returns, which it returns (the callback below never
  returns \<open>filepath.SkipDir\<close> of its own).
\<close>

fun Walk ::
  "(walkEntry \<Rightarrow> 'w \<Rightarrow> (error + unit) \<times> 'w) \<Rightarrow> walkEntry list \<Rightarrow> 'w \<Rightarrow> (error + unit) \<times> 'w" where
  "Walk fn [] w = (Inr (), w)"
| "Walk fn (entry # rest) w =
     (case fn entry w of
        (Inl err, w1) \<Rightarrow> (Inl err, w1)
      | (Inr u, w1) \<Rightarrow> Walk fn rest w1)"

text \<open>
  The callback of the walk in \<open>Session.ExtractImage\<close>: an entry reported with an error
  ends the walk with that error; an entry that is not a directory and whose path has
  \<open>srcDir\<close> as a string prefix is copied to \<open>path.Join(destination, path[len(srcDir):])\<close>;
  anything else is passed over.
\<close>

definition copyVisited ::
  "runtime \<Rightarrow> string \<Rightarrow> string \<Rightarrow> walkEntry \<Rightarrow> session_world
     \<Rightarrow> (error + unit) \<times> session_world" where
  "copyVisited rt srcDir destination entry w =
     (case entry of (path, f, walkErr) \<Rightarrow>
        (case walkErr of
           Inl err \<Rightarrow> (Inl err, w)
         | Inr u \<Rightarrow>
             if \<not> IsDir f \<and> prefix srcDir path
               then perform rt (CopyFile path (Join rt destination (drop (length srcDir) path))) w
             else (Inr (), w)))"

definition copyPhase ::
  "runtime \<Rightarrow> string \<Rightarrow> string \<Rightarrow> session_world \<Rightarrow> (error + unit) \<times> session_world" where
  "copyPhase rt destination root w =
     (let srcDir = Join rt root ''extract'' in
      Walk (copyVisited rt srcDir destination)
        (walkEntries rt (trace w) (Join rt root ''extract'')) w)"

text \<open>
  \<open>mount.WithTempMount\<close> of the containerd library: mount, run the callback on the
  mount point, unmount whatever the callback returned. A failed mount is returned before
  the callback runs; otherwise the callback's error is returned, or the unmount's when the
  callback succeeded.
\<close>

definition WithTempMount ::
  "runtime \<Rightarrow> string \<Rightarrow> (string \<Rightarrow> session_world \<Rightarrow> (error + unit) \<times> session_world)
     \<Rightarrow> session_world \<Rightarrow> (error + unit) \<times> session_world" where
  "WithTempMount rt snapshotKey f w =
     (case perform rt (TempMount snapshotKey) w of
        (Inl err, w1) \<Rightarrow> (Inl err, w1)
      | (Inr u, w1) \<Rightarrow>
          (let root = mountRoot rt (trace w1) in
           case f root w1 of
             (res, w2) \<Rightarrow>
               (case perform rt (Unmount root) w2 of
                  (unmounted, w3) \<Rightarrow>
                    (case res of Inl err \<Rightarrow> (Inl err, w3) | Inr v \<Rightarrow> (unmounted, w3)))))"

text \<open>
  A \<open>defer\<close>red call runs when the function returns, after the result is fixed; its own
  result is discarded.
\<close>

definition deferred ::
  "runtime \<Rightarrow> action \<Rightarrow> (error + unit) \<times> session_world \<Rightarrow> (error + unit) \<times> session_world" where
  "deferred rt a r = (fst r, snd (perform rt a (snd r)))"

text \<open>
  \<open>Session.ExtractImage\<close>, with \<open>imageRef.FullName()\<close> as \<open>fullName\<close>. The three
  \<open>defer\<close>s (release of the lease, destruction of the workspace, deletion of the
  snapshot) wrap the part of the body that follows them, so they run innermost first.
  The error of \<open>createTempMounts\<close> is overwritten by the next assignment to \<open>err\<close>
  without being read, so the call's result is dropped here.
\<close>

definition SessionExtractImage ::
  "runtime \<Rightarrow> string \<Rightarrow> string \<Rightarrow> session_world \<Rightarrow> (error + unit) \<times> session_world" where
  "SessionExtractImage rt fullName destination w =
     (case perform rt WithLease w of
        (Inl err, w1) \<Rightarrow> (Inl err, w1)
      | (Inr u1, w1) \<Rightarrow>
          deferred rt ReleaseLease
            (case perform rt (GetImage fullName) w1 of
               (Inl err, w2) \<Rightarrow> (Inl err, w2)
             | (Inr u2, w2) \<Rightarrow>
                 (case perform rt (NewWorkspace []) w2 of
                    (Inl err, w3) \<Rightarrow> (Inl err, w3)
                  | (Inr u3, w3) \<Rightarrow>
                      deferred rt (DestroyWorkspace (workspacePath rt (trace w3)))
                        (case NewID rt
                                (snd (perform rt (CreateTempMounts (workspacePath rt (trace w3)))
                                        w3)) of
                           (snapshotKey, w4) \<Rightarrow>
                             (case perform rt (CreateSnapshot snapshotKey fullName) w4 of
                                (Inl err, w5) \<Rightarrow> (Inl err, w5)
                              | (Inr u5, w5) \<Rightarrow>
                                  deferred rt (DeleteSnapshot snapshotKey)
                                    (case perform rt (RunContainer fullName snapshotKey) w5 of
                                       (Inl err, w6) \<Rightarrow> (Inl err, w6)
                                     | (Inr u6, w6) \<Rightarrow>
                                         (case perform rt (Mounts snapshotKey) w6 of
                                            (Inl err, w7) \<Rightarrow> (Inl err, w7)
                                          | (Inr u7, w7) \<Rightarrow>
                                              (case WithTempMount rt snapshotKey
                                                      (copyPhase rt destination) w7 of
                                                 (Inl err, w8) \<Rightarrow> (Inl err, w8)
                                               | (Inr u8, w8) \<Rightarrow> (Inr (), w8)))))))))"

section \<open>Predicates on traces\<close>

text \<open>
  Vocabulary for the lemmas about traces. \<open>performs P w w'\<close>: the world \<open>w'\<close>
  continues the trace of \<open>w\<close> by actions that all satisfy \<open>P\<close>;
  \<open>extends\<close> adds that no identifier was issued in between.
  \<open>containerCommand c cmds\<close>: a docker command that is one of \<open>cmds\<close> or the
  \<open>stop\<close> or \<open>rm\<close> of container \<open>c\<close>. \<open>copiedFrom\<close>: a \<open>CopyFile\<close> that
  the callback of the walk issues for one of the entries. \<open>keyedBy k\<close>: not a
  \<open>CreateSnapshot\<close> under another key than \<open>k\<close>; \<open>noCreate\<close>: no
  \<open>CreateSnapshot\<close> at all. \<open>grown rt w w'\<close>: the trace was continued, every
  snapshot created in between is keyed by the identifier \<open>NewID\<close> yields in \<open>w\<close>,
  and either nothing was issued and no snapshot created, or exactly that identifier was
  issued.
\<close>

definition performs :: "(action \<Rightarrow> bool) \<Rightarrow> 'w world_scheme \<Rightarrow> 'w world_scheme \<Rightarrow> bool" where
  "performs P w w' = (\<exists>h. trace w' = trace w @ h \<and> (\<forall>e \<in> set h. P (fst e)))"

definition containerCommand :: "string \<Rightarrow> string list list \<Rightarrow> action \<Rightarrow> bool" where
  "containerCommand c cmds a =
     (\<exists>args. a = Exec ''docker'' args
        \<and> (args \<in> set cmds \<or> args = [''stop'', c] \<or> args = [''rm'', c]))"

definition copiedFrom :: "runtime \<Rightarrow> string \<Rightarrow> string \<Rightarrow> walkEntry list \<Rightarrow> action \<Rightarrow> bool" where
  "copiedFrom rt srcDir destination entries a =
     (\<exists>path f. (path, f, Inr ()) \<in> set entries \<and> \<not> IsDir f \<and> prefix srcDir path
        \<and> a = CopyFile path (Join rt destination (drop (length srcDir) path)))"

definition noCreate :: "action \<Rightarrow> bool" where
  "noCreate a = (\<forall>k i. a \<noteq> CreateSnapshot k i)"

definition keyedBy :: "string \<Rightarrow> action \<Rightarrow> bool" where
  "keyedBy k a = (\<forall>k' i. a = CreateSnapshot k' i \<longrightarrow> k' = k)"

definition extends :: "(action \<Rightarrow> bool) \<Rightarrow> session_world \<Rightarrow> session_world \<Rightarrow> bool" where
  "extends P w w' =
     (\<exists>h. trace w' = trace w @ h \<and> issued w' = issued w \<and> (\<forall>e \<in> set h. P (fst e)))"

definition grown :: "runtime \<Rightarrow> session_world \<Rightarrow> session_world \<Rightarrow> bool" where
  "grown rt w w' =
     (\<exists>h. trace w' = trace w @ h
        \<and> (\<forall>e \<in> set h. keyedBy (generate rt (issued w)) (fst e))
        \<and> (issued w' = issued w \<and> (\<forall>e \<in> set h. noCreate (fst e))
            \<or> issued w' = issued w @ [generate rt (issued w)]))"

section \<open>Example inputs\<close>

text \<open>
  Concrete definition sets, a concrete directory tree and two concrete backends, on which
  the theorems below are instantiated: a two-image cycle, a base image with one child,
  a backend on which everything succeeds and one on which the commit and the stop fail.
\<close>

definition mkImage :: "string \<Rightarrow> string \<Rightarrow> ImageDefinition" where
  "mkImage n p = \<lparr> Name = n, ImageDir = ''/images/'' @ n, ImagesDir = ''/images'', Inherits = p \<rparr>"

definition cyclicDefs :: "(string, ImageDefinition) fmap" where
  "cyclicDefs = fmupd ''b'' (mkImage ''b'' ''a'') (fmupd ''a'' (mkImage ''a'' ''b'') fmempty)"

definition layeredDefs :: "(string, ImageDefinition) fmap" where
  "layeredDefs = fmupd ''child'' (mkImage ''child'' ''base'')
                   (fmupd ''base'' (mkImage ''base'' ''external:os/base'') fmempty)"

definition exampleFs :: filesystem where
  "exampleFs = \<lparr>
     ExpandPath = (\<lambda>p. p),
     DirectoryExists = (\<lambda>p. p = ''/images/base'' \<or> p = ''/images/child''),
     FileExists = (\<lambda>p. p = ''/images/base/config.json'' \<or> p = ''/images/child/config.json''),
     GetChildDirectories =
       (\<lambda>p. if p = ''/images'' then Inr [''base'', ''child''] else Inl (SystemError ''ENOENT'')),
     ReadFile =
       (\<lambda>p. if p = ''/images/base/config.json'' then Inr ''external:os/base''
            else if p = ''/images/child/config.json'' then Inr ''base''
            else Inl (SystemError ''ENOENT'')),
     Unmarshal = (\<lambda>jsonData. Inr \<lparr> ConfigInherits = jsonData \<rparr>),
     pathJoin = (\<lambda>a b. a @ ''/'' @ b),
     rangeOrder = (\<lambda>m. case (fmlookup m ''child'', fmlookup m ''base'') of
                          (Some c, Some b) \<Rightarrow> [c, b] | _ \<Rightarrow> []) \<rparr>"

definition emptyWorld :: world where
  "emptyWorld = \<lparr> dirs = {}, files = Map.empty, trace = [] \<rparr>"

definition failingSystem :: system where
  "failingSystem = \<lparr>
     outcome = (\<lambda>h a. if a = Exec ''docker'' [''commit'', ''darch-building-base'', ''base'']
                         then Inl (SystemError ''commit failed'')
                       else if a = Exec ''docker'' [''stop'', ''darch-building-base'']
                         then Inl (SystemError ''stop failed'')
                       else Inr ()),
     Join = (\<lambda>a b. a @ ''/'' @ b),
     beneath = (\<lambda>d p. prefix (d @ ''/'') p),
     containerFile = (\<lambda>src. ''contents of '' @ src) \<rparr>"

definition obligingSystem :: system where
  "obligingSystem = \<lparr>
     outcome = (\<lambda>h a. Inr ()),
     Join = (\<lambda>a b. a @ ''/'' @ b),
     beneath = (\<lambda>d p. prefix (d @ ''/'') p),
     containerFile = (\<lambda>src. ''contents of '' @ src) \<rparr>"

text \<open>
  A host whose destination directory \<open>/out\<close> already holds a file, and the commands
  one successful extraction of \<open>myimage\<close> into it performs.
\<close>

definition staleWorld :: world where
  "staleWorld = \<lparr> dirs = {''/out''},
                  files = [''/out/stale'' \<mapsto> ''left over'', ''/home/keep'' \<mapsto> ''mine''],
                  trace = [] \<rparr>"

definition extractionLog :: "(action \<times> (error + unit)) list" where
  "extractionLog =
     [(CleanDirectory ''/out'', Inr ()),
      (Exec ''docker'' [''run'', ''-d'', ''--privileged'', ''--name'',
                        ''darch-extracting-myimage'', ''myimage''], Inr ()),
      (Exec ''docker'' [''exec'', ''darch-extracting-myimage'', ''mksquashfs'', ''root.x86_64'',
                        ''/rootfs.squash''], Inr ()),
      (Exec ''docker'' [''cp'', ''darch-extracting-myimage:/rootfs.squash'',
                        ''/out/rootfs.squash''], Inr ()),
      (Exec ''docker'' [''cp'', ''darch-extracting-myimage:/root.x86_64/boot/vmlinuz-linux'',
                        ''/out/vmlinuz-linux''], Inr ()),
      (Exec ''docker'' [''cp'', ''darch-extracting-myimage:/root.x86_64/boot/initramfs-linux.img'',
                        ''/out/initramfs-linux.img''], Inr ()),
      (Exec ''docker'' [''stop'', ''darch-extracting-myimage''], Inr ()),
      (Exec ''docker'' [''rm'', ''darch-extracting-myimage''], Inr ())]"

text \<open>
  A containerd runtime on which everything succeeds, whose mounted snapshot holds a
  directory, a regular file and a symbolic link under \<open>/mnt/extract\<close>, and whose
  identifier generator returns a string longer than all it has issued.
\<close>

definition mountedFiles :: "walkEntry list" where
  "mountedFiles =
     [(''/mnt/extract'', \<lparr> BaseName = ''extract'', Mode = ModeDir \<rparr>, Inr ()),
      (''/mnt/extract/etc'', \<lparr> BaseName = ''etc'', Mode = ModeDir \<rparr>, Inr ()),
      (''/mnt/extract/etc/hostname'', \<lparr> BaseName = ''hostname'', Mode = ModeRegular \<rparr>, Inr ()),
      (''/mnt/extract/etc/localtime'', \<lparr> BaseName = ''localtime'', Mode = ModeSymlink \<rparr>, Inr ())]"

definition exampleRuntime :: runtime where
  "exampleRuntime = \<lparr>
     outcome = (\<lambda>h a. Inr ()),
     Join = (\<lambda>a b. if b = [] then a else if hd b = CHR ''/'' then a @ b else a @ ''/'' @ b),
     beneath = (\<lambda>d p. prefix (d @ ''/'') p),
     containerFile = (\<lambda>src. ''contents of '' @ src),
     generate = (\<lambda>ids. ''k'' @ concat ids),
     workspacePath = (\<lambda>h. ''/tmp/workspace''),
     mountRoot = (\<lambda>h. ''/mnt''),
     walkEntries = (\<lambda>h root. if root = ''/mnt/extract'' then mountedFiles else []) \<rparr>"

definition freshSession :: session_world where
  "freshSession = \<lparr> dirs = {''/tmp/out''}, files = Map.empty, trace = [], issued = [] \<rparr>"

section \<open>Termination and results of verifyDependencies\<close>

lemma depth_sound:
  "verifyDependencies_depth n d defs st = Some r \<Longrightarrow> verifyDependencies d defs st = Some r"
proof (induction n arbitrary: d st)
  case 0
  then show ?case by simp
next
  case (Suc n)
  show ?case
    using Suc.prems Suc.IH
    by (subst verifyDependencies.simps) (auto split: option.splits if_splits)
qed

lemma keyed_member:
  "keyedByName defs \<Longrightarrow> fmlookup defs k = Some p \<Longrightarrow> fmlookup defs (Name p) = Some p"
  by (auto simp: keyedByName_def)

lemma card_fresh:
  assumes "x \<in> fmdom' defs" "x \<notin> fmdom' S"
  shows "card (fmdom' defs - fmdom' (fmupd x True S)) < card (fmdom' defs - fmdom' S)"
proof -
  have eq: "fmdom' defs - fmdom' (fmupd x True S) = (fmdom' defs - fmdom' S) - {x}"
    by (simp only: fmdom'_fmupd) blast
  have "x \<in> fmdom' defs - fmdom' S" using assms by blast
  moreover have "finite (fmdom' defs - fmdom' S)" by simp
  ultimately show ?thesis unfolding eq by (meson card_Diff1_less)
qed

lemma depth_member_returns:
  assumes "keyedByName defs"
  shows "fmlookup defs (Name d) = Some d \<Longrightarrow> Name d \<notin> fmdom' S \<Longrightarrow>
         card (fmdom' defs - fmdom' S) < n \<Longrightarrow>
         \<exists>r. verifyDependencies_depth n d defs (Some S) = Some r"
proof (induction n arbitrary: d S)
  case 0
  then show ?case by simp
next
  case (Suc n)
  let ?S' = "fmupd (Name d) True S"
  have dom: "Name d \<in> fmdom' defs" using Suc.prems(1) by (rule fmdom'I)
  have less: "card (fmdom' defs - fmdom' ?S') < card (fmdom' defs - fmdom' S)"
    using dom Suc.prems(2) by (rule card_fresh)
  show ?case
  proof (cases "isExternal (Inherits d) \<or> fmlookup S (Inherits d) \<noteq> None
                \<or> fmlookup defs (Inherits d) = None")
    case True
    then show ?thesis by (auto split: option.splits)
  next
    case False
    then obtain p where p: "fmlookup defs (Inherits d) = Some p" by auto
    have mp: "fmlookup defs (Name p) = Some p" using assms p by (rule keyed_member)
    have np: "Name p = Inherits d" using assms p by (auto simp: keyedByName_def)
    have step: "verifyDependencies_depth (Suc n) d defs (Some S)
                = verifyDependencies_depth n p defs (Some ?S')"
      using False p by simp
    show ?thesis
    proof (cases "Name p = Name d")
      case True
      then have pd: "p = d" using mp Suc.prems(1) by (metis option.inject)
      have "0 < n" using less Suc.prems(3) by linarith
      then obtain m where m: "n = Suc m" by (cases n) auto
      have "fmlookup ?S' (Inherits d) \<noteq> None" using np True by simp
      then have "verifyDependencies_depth (Suc m) d defs (Some ?S')
                 = Some (Inl (CyclicalDependency (Name d)))"
        using False by simp
      then show ?thesis using step pd m by metis
    next
      case False
      then have "Name p \<notin> fmdom' ?S'"
        using np \<open>\<not> (isExternal (Inherits d) \<or> fmlookup S (Inherits d) \<noteq> None
                \<or> fmlookup defs (Inherits d) = None)\<close>
        by (auto simp: fmlookup_dom'_iff)
      moreover have "card (fmdom' defs - fmdom' ?S') < n" using less Suc.prems(3) by linarith
      ultimately show ?thesis using Suc.IH[OF mp] step by simp
    qed
  qed
qed


lemma depth_nil_stack:
  "verifyDependencies_depth n d defs None = verifyDependencies_depth n d defs (Some fmempty)"
  by (cases n) (simp_all split: option.splits)

lemma depth_start_returns:
  assumes keyed: "keyedByName defs" and n: "card (fmdom' defs) + 1 < n"
  shows "\<exists>r. verifyDependencies_depth n d defs None = Some r"
proof -
  obtain n1 where n1: "n = Suc n1" using n by (cases n) auto
  let ?S1 = "fmupd (Name d) True fmempty"
  show ?thesis
  proof (cases "isExternal (Inherits d) \<or> fmlookup defs (Inherits d) = None")
    case True
    then show ?thesis unfolding n1 by (auto split: option.splits)
  next
    case False
    then obtain p where p: "fmlookup defs (Inherits d) = Some p" by auto
    have mp: "fmlookup defs (Name p) = Some p" using keyed p by (rule keyed_member)
    have np: "Name p = Inherits d" using keyed p by (auto simp: keyedByName_def)
    have step: "verifyDependencies_depth n d defs None
                = verifyDependencies_depth n1 p defs (Some ?S1)"
      unfolding n1 using False p by simp
    have fin: "finite (fmdom' defs)" by simp
    show ?thesis
    proof (cases "Name p = Name d")
      case neq: False
      have "Name p \<notin> fmdom' ?S1" using neq by simp
      moreover have "card (fmdom' defs - fmdom' ?S1) \<le> card (fmdom' defs)"
        using fin by (simp add: card_Diff_subset_Int card_mono)
      then have "card (fmdom' defs - fmdom' ?S1) < n1" using n n1 by linarith
      ultimately show ?thesis
        using depth_member_returns[OF keyed mp] step by simp
    next
      case same: True
      obtain n2 where n2: "n1 = Suc n2" using n n1 by (cases n1) auto
      have din: "Name d \<in> fmdom' defs" using mp same by (metis fmdom'I)
      have c1: "card (fmdom' defs - {Name d}) < card (fmdom' defs)"
        using din fin by (meson card_Diff1_less)
      show ?thesis
      proof (cases "isExternal (Inherits p) \<or> fmlookup ?S1 (Inherits p) \<noteq> None
                    \<or> fmlookup defs (Inherits p) = None")
        case True
        then have "\<exists>r. verifyDependencies_depth (Suc n2) p defs (Some ?S1) = Some r"
          by (auto split: option.splits)
        then show ?thesis using step n2 by simp
      next
        case cont: False
        then obtain q where q: "fmlookup defs (Inherits p) = Some q" by auto
        have mq: "fmlookup defs (Name q) = Some q" using keyed q by (rule keyed_member)
        have nq: "Name q = Inherits p" using keyed q by (auto simp: keyedByName_def)
        let ?S2 = "fmupd (Name p) True ?S1"
        have step2: "verifyDependencies_depth (Suc n2) p defs (Some ?S1)
                     = verifyDependencies_depth n2 q defs (Some ?S2)"
          using cont q by simp
        have dom2: "fmdom' ?S2 = {Name d}" using same by simp
        have "Inherits p \<noteq> Name d" using cont by (auto split: if_splits)
        then have "Name q \<notin> fmdom' ?S2" unfolding dom2 nq by simp
        moreover have "card (fmdom' defs - fmdom' ?S2) < n2"
          unfolding dom2 using c1 n n1 n2 by linarith
        ultimately have "\<exists>r. verifyDependencies_depth n2 q defs (Some ?S2) = Some r"
          using depth_member_returns[OF keyed mq] by blast
        then show ?thesis using step step2 n2 by simp
      qed
    qed
  qed
qed

lemma depth_member_start_returns:
  assumes keyed: "keyedByName defs" and d: "d \<in> fmran' defs"
    and n: "card (fmdom' defs) < n"
  shows "\<exists>r. verifyDependencies_depth n d defs None = Some r"
proof -
  obtain k where "fmlookup defs k = Some d" using d by (auto simp: fmlookup_ran'_iff)
  then have "fmlookup defs (Name d) = Some d" using keyed by (rule keyed_member[rotated])
  moreover have "Name d \<notin> fmdom' (fmempty :: (string, bool) fmap)" by simp
  moreover have "card (fmdom' defs - fmdom' (fmempty :: (string, bool) fmap)) < n"
    using n by simp
  ultimately show ?thesis
    using depth_member_returns[OF keyed] unfolding depth_nil_stack by blast
qed

lemma depth_acyclic_ok:
  assumes keyed: "keyedByName defs" and acyc: "acyclic (inheritsEdges defs)"
    and res: "resolvable defs"
  shows "fmlookup defs (Name d) = Some d \<Longrightarrow>
         \<forall>s \<in> fmdom' S. (s, Name d) \<in> (inheritsEdges defs)\<^sup>+ \<Longrightarrow>
         card (fmdom' defs - fmdom' S) < n \<Longrightarrow>
         verifyDependencies_depth n d defs (Some S) = Some (Inr ())"
proof (induction n arbitrary: d S)
  case 0
  then show ?case by simp
next
  case (Suc n)
  let ?S' = "fmupd (Name d) True S"
  have dran: "d \<in> fmran' defs" using Suc.prems(1) by (rule fmran'I)
  have fresh: "Name d \<notin> fmdom' S"
    using Suc.prems(2) acyc by (auto simp: acyclic_def)
  have dom: "Name d \<in> fmdom' defs" using Suc.prems(1) by (rule fmdom'I)
  have less: "card (fmdom' defs - fmdom' ?S') < card (fmdom' defs - fmdom' S)"
    using dom fresh by (rule card_fresh)
  show ?case
  proof (cases "isExternal (Inherits d)")
    case True
    then show ?thesis by simp
  next
    case ext: False
    then have edge: "(Name d, Inherits d) \<in> inheritsEdges defs"
      using dran by (auto simp: inheritsEdges_def)
    have nostack: "fmlookup S (Inherits d) = None"
    proof (rule ccontr)
      assume "fmlookup S (Inherits d) \<noteq> None"
      then have "Inherits d \<in> fmdom' S" by (auto simp: fmlookup_dom'_iff)
      then have "(Inherits d, Name d) \<in> (inheritsEdges defs)\<^sup>+" using Suc.prems(2) by blast
      then have "(Name d, Name d) \<in> (inheritsEdges defs)\<^sup>+"
        using edge by (meson trancl_into_trancl2)
      then show False using acyc by (auto simp: acyclic_def)
    qed
    have "Inherits d \<in> fmdom' defs" using res dran ext by (auto simp: resolvable_def)
    then obtain p where p: "fmlookup defs (Inherits d) = Some p"
      by (auto simp: fmlookup_dom'_iff)
    have mp: "fmlookup defs (Name p) = Some p" using keyed p by (rule keyed_member)
    have np: "Name p = Inherits d" using keyed p by (auto simp: keyedByName_def)
    have step: "verifyDependencies_depth (Suc n) d defs (Some S)
                = verifyDependencies_depth n p defs (Some ?S')"
      using ext nostack p by simp
    have inv: "\<forall>s \<in> fmdom' ?S'. (s, Name p) \<in> (inheritsEdges defs)\<^sup>+"
    proof
      fix s assume "s \<in> fmdom' ?S'"
      then consider "s = Name d" | "s \<in> fmdom' S" by auto
      then show "(s, Name p) \<in> (inheritsEdges defs)\<^sup>+"
      proof cases
        case 1
        then show ?thesis using edge np by auto
      next
        case 2
        then have "(s, Name d) \<in> (inheritsEdges defs)\<^sup>+" using Suc.prems(2) by blast
        then show ?thesis using edge np by (metis trancl.trancl_into_trancl)
      qed
    qed
    have "card (fmdom' defs - fmdom' ?S') < n" using less Suc.prems(3) by linarith
    then show ?thesis using Suc.IH[OF mp inv] step by simp
  qed
qed

lemma verify_acyclic_ok:
  assumes keyed: "keyedByName defs" and acyc: "acyclic (inheritsEdges defs)"
    and res: "resolvable defs" and d: "d \<in> fmran' defs"
  shows "verifyDependencies d defs None = Some (Inr ())"
proof -
  obtain k where "fmlookup defs k = Some d" using d by (auto simp: fmlookup_ran'_iff)
  then have m: "fmlookup defs (Name d) = Some d" using keyed by (rule keyed_member[rotated])
  have "verifyDependencies_depth (Suc (card (fmdom' defs))) d defs (Some fmempty) = Some (Inr ())"
    using keyed acyc res m by (rule depth_acyclic_ok) simp_all
  then have "verifyDependencies_depth (Suc (card (fmdom' defs))) d defs None = Some (Inr ())"
    by (simp only: depth_nil_stack)
  then show ?thesis by (rule depth_sound)
qed

lemma BuildDefinition_Name:
  "BuildDefinition fs imageName imagesDir = Inr d \<Longrightarrow> Name d = imageName"
  by (auto simp: BuildDefinition_def Let_def split: if_splits sum.splits)

lemma buildDefinitions_keyed:
  "buildDefinitions fs imagesDir names acc = Inr defs \<Longrightarrow> keyedByName acc \<Longrightarrow> keyedByName defs"
proof (induction names arbitrary: acc)
  case Nil
  then show ?case by simp
next
  case (Cons n names)
  from Cons.prems(1) obtain d where d: "BuildDefinition fs n imagesDir = Inr d"
    and rest: "buildDefinitions fs imagesDir names (fmupd n d acc) = Inr defs"
    by (auto split: sum.splits)
  have "keyedByName (fmupd n d acc)"
    using Cons.prems(2) BuildDefinition_Name[OF d] by (auto simp: keyedByName_def)
  with rest show ?case by (rule Cons.IH)
qed

lemma verifyAll_ok:
  "\<forall>d \<in> set ds. verifyDependencies d defs None = Some (Inr ()) \<Longrightarrow> verifyAll ds defs = Some (Inr ())"
  by (induction ds) auto


lemma cyclicDefs_keyed: "keyedByName cyclicDefs"
  by (auto simp: keyedByName_def cyclicDefs_def mkImage_def split: if_splits)

lemma cyclicDefs_edges:
  "(''a'', ''b'') \<in> inheritsEdges cyclicDefs" "(''b'', ''a'') \<in> inheritsEdges cyclicDefs"
proof -
  have a: "mkImage ''a'' ''b'' \<in> fmran' cyclicDefs"
    by (rule fmran'I[of _ "''a''"]) (simp add: cyclicDefs_def)
  have b: "mkImage ''b'' ''a'' \<in> fmran' cyclicDefs"
    by (rule fmran'I[of _ "''b''"]) (simp add: cyclicDefs_def)
  show "(''a'', ''b'') \<in> inheritsEdges cyclicDefs"
    unfolding inheritsEdges_def using a by (force simp: mkImage_def isExternal_def)
  show "(''b'', ''a'') \<in> inheritsEdges cyclicDefs"
    unfolding inheritsEdges_def using b by (force simp: mkImage_def isExternal_def)
qed

lemma layeredDefs_keyed: "keyedByName layeredDefs"
  by (auto simp: keyedByName_def layeredDefs_def mkImage_def split: if_splits)

lemma layeredDefs_ran:
  "fmran' layeredDefs = {mkImage ''child'' ''base'', mkImage ''base'' ''external:os/base''}"
proof
  show "fmran' layeredDefs \<subseteq> {mkImage ''child'' ''base'', mkImage ''base'' ''external:os/base''}"
    by (auto simp: fmlookup_ran'_iff layeredDefs_def split: if_splits)
  have "mkImage ''child'' ''base'' \<in> fmran' layeredDefs"
    by (rule fmran'I[of _ "''child''"]) (simp add: layeredDefs_def)
  moreover have "mkImage ''base'' ''external:os/base'' \<in> fmran' layeredDefs"
    by (rule fmran'I[of _ "''base''"]) (simp add: layeredDefs_def)
  ultimately show "{mkImage ''child'' ''base'', mkImage ''base'' ''external:os/base''}
                   \<subseteq> fmran' layeredDefs"
    by simp
qed

lemma layeredDefs_edges: "inheritsEdges layeredDefs = {(''child'', ''base'')}"
proof
  show "inheritsEdges layeredDefs \<subseteq> {(''child'', ''base'')}"
    unfolding inheritsEdges_def layeredDefs_ran by (auto simp: mkImage_def isExternal_def)
  have "\<not> isExternal (Inherits (mkImage ''child'' ''base''))"
    by (simp add: mkImage_def isExternal_def)
  then have "(Name (mkImage ''child'' ''base''), Inherits (mkImage ''child'' ''base''))
             \<in> inheritsEdges layeredDefs"
    unfolding inheritsEdges_def layeredDefs_ran by blast
  then show "{(''child'', ''base'')} \<subseteq> inheritsEdges layeredDefs"
    by (simp add: mkImage_def)
qed

lemma layeredDefs_acyclic: "acyclic (inheritsEdges layeredDefs)"
proof -
  have "acyclic ({} :: (string \<times> string) set)" by (simp add: acyclic_def)
  then show ?thesis unfolding layeredDefs_edges by simp
qed

lemma layeredDefs_resolvable: "resolvable layeredDefs"
  unfolding resolvable_def layeredDefs_ran
  by (simp add: mkImage_def isExternal_def layeredDefs_def)

lemma exampleFs_builds:
  "buildDefinitions exampleFs ''/images'' [''base'', ''child''] fmempty = Inr layeredDefs"
  by (simp add: BuildDefinition_def loadImageConfiguration_def exampleFs_def layeredDefs_def
      mkImage_def Let_def)

text \<open>
  C1. A definition set that contains the two-image inheritance cycle \<open>A \<rightarrow> B \<rightarrow> A\<close>
  (\<open>A\<close> inherits from \<open>B\<close> and \<open>B\<close> from \<open>A\<close>, neither reference being
  external) fails validation with the cyclical-dependency error from both entry points:
  started from \<open>A\<close> with a \<open>nil\<close> stack, as \<open>BuildAllDefinitions\<close> starts it,
  the walk reports the cycle at \<open>B\<close>, and started from \<open>B\<close> it reports it at
  \<open>A\<close>.
\<close>

theorem two_cycle_detected:
  assumes keyed: "keyedByName defs"
    and ab: "(A, B) \<in> inheritsEdges defs" and ba: "(B, A) \<in> inheritsEdges defs"
  shows "\<exists>a b. fmlookup defs A = Some a \<and> fmlookup defs B = Some b
           \<and> verifyDependencies a defs None = Some (Inl (CyclicalDependency B))
           \<and> verifyDependencies b defs None = Some (Inl (CyclicalDependency A))"
proof -
  obtain a where a: "a \<in> fmran' defs" "Name a = A" "Inherits a = B" "\<not> isExternal B"
    using ab by (auto simp: inheritsEdges_def)
  obtain b where b: "b \<in> fmran' defs" "Name b = B" "Inherits b = A" "\<not> isExternal A"
    using ba by (auto simp: inheritsEdges_def)
  have la: "fmlookup defs A = Some a"
    using a(1,2) keyed by (auto simp: fmlookup_ran'_iff keyedByName_def)
  have lb: "fmlookup defs B = Some b"
    using b(1,2) keyed by (auto simp: fmlookup_ran'_iff keyedByName_def)
  have b_in: "verifyDependencies b defs (Some (fmupd A True fmempty))
              = Some (Inl (CyclicalDependency B))"
    using b by (subst verifyDependencies.simps) simp
  have a_in: "verifyDependencies a defs (Some (fmupd B True fmempty))
              = Some (Inl (CyclicalDependency A))"
    using a by (subst verifyDependencies.simps) simp
  have "verifyDependencies a defs None = Some (Inl (CyclicalDependency B))"
    using a lb b_in by (subst verifyDependencies.simps) simp
  moreover have "verifyDependencies b defs None = Some (Inl (CyclicalDependency A))"
    using b la a_in by (subst verifyDependencies.simps) simp
  ultimately show ?thesis using la lb by blast
qed

theorem two_cycle_detected_witness:
  "keyedByName cyclicDefs
   \<and> (''a'', ''b'') \<in> inheritsEdges cyclicDefs \<and> (''b'', ''a'') \<in> inheritsEdges cyclicDefs
   \<and> verifyDependencies (mkImage ''a'' ''b'') cyclicDefs None
       = Some (Inl (CyclicalDependency ''b''))
   \<and> verifyDependencies (mkImage ''b'' ''a'') cyclicDefs None
       = Some (Inl (CyclicalDependency ''a''))"
  using two_cycle_detected[OF cyclicDefs_keyed cyclicDefs_edges] cyclicDefs_keyed cyclicDefs_edges
  by (auto simp: cyclicDefs_def)

text \<open>
  C2. In a definition set keyed by name in which the inheritance relation has no cycle
  and every parent that is not external is a definition of the set,
  \<open>verifyDependencies\<close> returns \<open>nil\<close> for every image of the set; and when that
  set is what \<open>BuildAllDefinitions\<close> read from the image directory, it returns the
  whole map and no error, whatever order the validating loop visits the images in.
\<close>

theorem acyclic_resolvable_validates:
  assumes keyed: "keyedByName defs" and acyc: "acyclic (inheritsEdges defs)"
    and res: "resolvable defs"
  shows "(\<forall>d \<in> fmran' defs. verifyDependencies d defs None = Some (Inr ()))
       \<and> (\<forall>fs imagesDir imageNames.
            length imagesDir \<noteq> 0
            \<and> GetChildDirectories fs imagesDir = Inr imageNames
            \<and> buildDefinitions fs imagesDir imageNames fmempty = Inr defs
            \<and> set (rangeOrder fs defs) \<subseteq> fmran' defs
            \<longrightarrow> BuildAllDefinitions fs imagesDir = Some (Inr defs))"
proof -
  have all: "\<forall>d \<in> fmran' defs. verifyDependencies d defs None = Some (Inr ())"
    using verify_acyclic_ok[OF keyed acyc res] by blast
  have "BuildAllDefinitions fs imagesDir = Some (Inr defs)"
    if "length imagesDir \<noteq> 0" "GetChildDirectories fs imagesDir = Inr imageNames"
      "buildDefinitions fs imagesDir imageNames fmempty = Inr defs"
      "set (rangeOrder fs defs) \<subseteq> fmran' defs"
    for fs imagesDir imageNames
  proof -
    have "verifyAll (rangeOrder fs defs) defs = Some (Inr ())"
      using all that(4) by (intro verifyAll_ok) blast
    then show ?thesis using that(1-3) by (simp add: BuildAllDefinitions_def)
  qed
  with all show ?thesis by blast
qed

theorem acyclic_resolvable_validates_witness:
  "keyedByName layeredDefs \<and> acyclic (inheritsEdges layeredDefs) \<and> resolvable layeredDefs
   \<and> verifyDependencies (mkImage ''child'' ''base'') layeredDefs None = Some (Inr ())
   \<and> verifyDependencies (mkImage ''base'' ''external:os/base'') layeredDefs None = Some (Inr ())
   \<and> BuildAllDefinitions exampleFs ''/images'' = Some (Inr layeredDefs)"
proof -
  note main = acyclic_resolvable_validates[OF layeredDefs_keyed layeredDefs_acyclic
      layeredDefs_resolvable]
  have order: "set (rangeOrder exampleFs layeredDefs) \<subseteq> fmran' layeredDefs"
    unfolding layeredDefs_ran by (simp add: exampleFs_def layeredDefs_def)
  have dir: "length ''/images'' \<noteq> 0" by simp
  have kids: "GetChildDirectories exampleFs ''/images'' = Inr [''base'', ''child'']"
    by (simp add: exampleFs_def)
  have "BuildAllDefinitions exampleFs ''/images'' = Some (Inr layeredDefs)"
    using main dir kids exampleFs_builds order by blast
  moreover have "verifyDependencies (mkImage ''child'' ''base'') layeredDefs None = Some (Inr ())"
    "verifyDependencies (mkImage ''base'' ''external:os/base'') layeredDefs None = Some (Inr ())"
    using main unfolding layeredDefs_ran by blast+
  ultimately show ?thesis
    using layeredDefs_keyed layeredDefs_acyclic layeredDefs_resolvable by blast
qed

text \<open>
  C3. An image whose \<open>Inherits\<close> is not marked external and is not a key of
  the set of definitions fails validation with the unresolved-parent error, which carries
  the name of the image being validated and the missing parent name as written.
\<close>

theorem unresolved_parent_reported:
  assumes "\<not> isExternal (Inherits d)" and "fmlookup defs (Inherits d) = None"
  shows "verifyDependencies d defs None
         = Some (Inl (UnresolvedParent (Name d) (Inherits d)))"
  using assms by (subst verifyDependencies.simps) simp

theorem unresolved_parent_reported_witness:
  "\<not> isExternal (Inherits (mkImage ''child'' ''missing''))
   \<and> fmlookup cyclicDefs (Inherits (mkImage ''child'' ''missing'')) = None
   \<and> verifyDependencies (mkImage ''child'' ''missing'') cyclicDefs None
       = Some (Inl (UnresolvedParent ''child'' ''missing''))"
proof -
  have h1: "\<not> isExternal (Inherits (mkImage ''child'' ''missing''))"
    by (simp add: mkImage_def isExternal_def)
  have h2: "fmlookup cyclicDefs (Inherits (mkImage ''child'' ''missing'')) = None"
    by (simp add: mkImage_def cyclicDefs_def)
  show ?thesis
    using unresolved_parent_reported[OF h1 h2] h1 h2 by (simp add: mkImage_def)
qed

text \<open>
  C10. On a definition set keyed by name \<open>verifyDependencies\<close> returns from every
  starting image, cycles or not. Started from an image of the set it needs at most one
  activation more than there are definitions, so its recursion is at most as deep as the
  set is large; started from any other image it needs at most one more.
\<close>

theorem verifyDependencies_terminates:
  assumes "keyedByName defs"
  shows "(\<exists>r. verifyDependencies d defs None = Some r)
       \<and> (\<exists>r. verifyDependencies_depth (card (fmdom' defs) + 2) d defs None = Some r)
       \<and> (d \<in> fmran' defs \<longrightarrow>
            (\<exists>r. verifyDependencies_depth (card (fmdom' defs) + 1) d defs None = Some r))"
proof -
  have a: "\<exists>r. verifyDependencies_depth (card (fmdom' defs) + 2) d defs None = Some r"
    using assms by (rule depth_start_returns) simp
  then have "\<exists>r. verifyDependencies d defs None = Some r"
    using depth_sound by blast
  moreover have "d \<in> fmran' defs \<Longrightarrow>
      \<exists>r. verifyDependencies_depth (card (fmdom' defs) + 1) d defs None = Some r"
    using assms by (rule depth_member_start_returns) simp_all
  ultimately show ?thesis using a by blast
qed


theorem verifyDependencies_terminates_witness:
  "keyedByName cyclicDefs
   \<and> mkImage ''a'' ''b'' \<in> fmran' cyclicDefs
   \<and> (\<exists>r. verifyDependencies (mkImage ''a'' ''b'') cyclicDefs None = Some r)
   \<and> (\<exists>r. verifyDependencies_depth (card (fmdom' cyclicDefs) + 1) (mkImage ''a'' ''b'')
             cyclicDefs None = Some r)
   \<and> card (fmdom' cyclicDefs) = 2"
proof -
  have a: "mkImage ''a'' ''b'' \<in> fmran' cyclicDefs"
    by (rule fmran'I[of _ "''a''"]) (simp add: cyclicDefs_def)
  have c: "card (fmdom' cyclicDefs) = 2" by (simp add: cyclicDefs_def)
  show ?thesis
    using verifyDependencies_terminates[OF cyclicDefs_keyed, of "mkImage ''a'' ''b''"] a c
      cyclicDefs_keyed by blast
qed

section \<open>Loading a definition\<close>

text \<open>
  C6. \<open>BuildDefinition\<close> returns an error when the image directory or its
  \<open>config.json\<close> is absent (for a non-empty image name and directory: the error
  naming the missing directory, respectively the missing manifest), returns the
  no-inherit-property error when the manifest parses with an absent or empty
  \<open>inherits\<close>, and never returns a definition whose \<open>Inherits\<close> is empty.
\<close>

theorem BuildDefinition_requires_manifest:
  fixes fs imageName imagesDir
  defines "dir \<equiv> pathJoin fs (ExpandPath fs imagesDir) imageName"
  defines "manifest \<equiv> pathJoin fs dir ''config.json''"
  shows "(\<not> DirectoryExists fs dir \<or> \<not> FileExists fs manifest
            \<longrightarrow> (\<exists>err. BuildDefinition fs imageName imagesDir = Inl err))
       \<and> (imageName \<noteq> [] \<and> imagesDir \<noteq> [] \<and> \<not> DirectoryExists fs dir
            \<longrightarrow> BuildDefinition fs imageName imagesDir = Inl (ImageDirMissing dir))
       \<and> (imageName \<noteq> [] \<and> imagesDir \<noteq> [] \<and> DirectoryExists fs dir \<and> \<not> FileExists fs manifest
            \<longrightarrow> BuildDefinition fs imageName imagesDir = Inl (NoConfigurationFile manifest))
       \<and> (\<forall>jsonData cfg.
            imageName \<noteq> [] \<and> imagesDir \<noteq> [] \<and> DirectoryExists fs dir \<and> FileExists fs manifest
            \<and> ReadFile fs manifest = Inr jsonData \<and> Unmarshal fs jsonData = Inr cfg
            \<and> ConfigInherits cfg = []
            \<longrightarrow> BuildDefinition fs imageName imagesDir = Inl (NoInheritProperty imageName))
       \<and> (\<forall>d. BuildDefinition fs imageName imagesDir = Inr d \<longrightarrow> Inherits d \<noteq> [])"
  unfolding dir_def manifest_def
  by (auto simp: BuildDefinition_def loadImageConfiguration_def Let_def split: sum.splits)

theorem BuildDefinition_requires_manifest_witness:
  "BuildDefinition exampleFs ''ghost'' ''/images'' = Inl (ImageDirMissing ''/images/ghost'')
   \<and> BuildDefinition (exampleFs\<lparr> FileExists := (\<lambda>p. False) \<rparr>) ''base'' ''/images''
       = Inl (NoConfigurationFile ''/images/base/config.json'')
   \<and> BuildDefinition (exampleFs\<lparr> ReadFile := (\<lambda>p. Inr []) \<rparr>) ''base'' ''/images''
       = Inl (NoInheritProperty ''base'')
   \<and> BuildDefinition exampleFs ''base'' ''/images'' = Inr (mkImage ''base'' ''external:os/base'')
   \<and> Inherits (mkImage ''base'' ''external:os/base'') \<noteq> []"
proof -
  let ?noManifest = "exampleFs\<lparr> FileExists := (\<lambda>p. False) \<rparr>"
  let ?emptyManifest = "exampleFs\<lparr> ReadFile := (\<lambda>p. Inr []) \<rparr>"
  have h1: "''ghost'' \<noteq> [] \<and> ''/images'' \<noteq> []
            \<and> \<not> DirectoryExists exampleFs
                  (pathJoin exampleFs (ExpandPath exampleFs ''/images'') ''ghost'')"
    by (simp add: exampleFs_def)
  have p1: "pathJoin exampleFs (ExpandPath exampleFs ''/images'') ''ghost'' = ''/images/ghost''"
    by (simp add: exampleFs_def)
  have c1: "BuildDefinition exampleFs ''ghost'' ''/images'' = Inl (ImageDirMissing ''/images/ghost'')"
    using BuildDefinition_requires_manifest[where fs="exampleFs" and imageName="''ghost''" and imagesDir="''/images''"] h1
    unfolding p1 by blast
  have h2: "''base'' \<noteq> [] \<and> ''/images'' \<noteq> []
            \<and> DirectoryExists ?noManifest
                  (pathJoin ?noManifest (ExpandPath ?noManifest ''/images'') ''base'')
            \<and> \<not> FileExists ?noManifest
                  (pathJoin ?noManifest
                     (pathJoin ?noManifest (ExpandPath ?noManifest ''/images'') ''base'')
                     ''config.json'')"
    by (simp add: exampleFs_def)
  have p2: "pathJoin ?noManifest
              (pathJoin ?noManifest (ExpandPath ?noManifest ''/images'') ''base'') ''config.json''
            = ''/images/base/config.json''"
    by (simp add: exampleFs_def)
  have c2: "BuildDefinition ?noManifest ''base'' ''/images''
            = Inl (NoConfigurationFile ''/images/base/config.json'')"
    using BuildDefinition_requires_manifest[where fs="?noManifest" and imageName="''base''" and imagesDir="''/images''"] h2
    unfolding p2 by blast
  have h3: "''base'' \<noteq> [] \<and> ''/images'' \<noteq> []
            \<and> DirectoryExists ?emptyManifest
                  (pathJoin ?emptyManifest (ExpandPath ?emptyManifest ''/images'') ''base'')
            \<and> FileExists ?emptyManifest
                  (pathJoin ?emptyManifest
                     (pathJoin ?emptyManifest (ExpandPath ?emptyManifest ''/images'') ''base'')
                     ''config.json'')
            \<and> ReadFile ?emptyManifest
                  (pathJoin ?emptyManifest
                     (pathJoin ?emptyManifest (ExpandPath ?emptyManifest ''/images'') ''base'')
                     ''config.json'') = Inr []
            \<and> Unmarshal ?emptyManifest [] = Inr \<lparr> ConfigInherits = [] \<rparr>
            \<and> ConfigInherits \<lparr> ConfigInherits = [] \<rparr> = []"
    by (simp add: exampleFs_def)
  have c3: "BuildDefinition ?emptyManifest ''base'' ''/images'' = Inl (NoInheritProperty ''base'')"
    using BuildDefinition_requires_manifest[where fs="?emptyManifest" and imageName="''base''" and imagesDir="''/images''"] h3
    by blast
  have h4: "BuildDefinition exampleFs ''base'' ''/images''
            = Inr (mkImage ''base'' ''external:os/base'')"
    by (simp add: BuildDefinition_def loadImageConfiguration_def exampleFs_def mkImage_def Let_def)
  have c4: "Inherits (mkImage ''base'' ''external:os/base'') \<noteq> []"
    using BuildDefinition_requires_manifest[where fs="exampleFs" and imageName="''base''" and imagesDir="''/images''"] h4
    by blast
  show ?thesis using c1 c2 c3 h4 c4 by blast
qed

section \<open>Traces of the docker build\<close>

lemma trace_effect: "trace (effect sys a w) = trace w"
  by (simp add: effect_def)

lemma perform_fst: "fst (perform sys a w) = outcome sys (trace w) a"
  by (simp add: perform_def split: sum.splits)

lemma perform_trace:
  "trace (snd (perform sys a w)) = trace w @ [(a, outcome sys (trace w) a)]"
  by (simp add: perform_def trace_effect split: sum.splits)

lemma runCommand_cases:
  obtains (failed) err w1 where "runCommand sys p args w = (Inl err, w1)"
      "trace w1 = trace w @ [(Exec p args, Inl err)]"
  | (succeeded) w1 where "runCommand sys p args w = (Inr (), w1)"
      "trace w1 = trace w @ [(Exec p args, Inr ())]"
proof (cases "outcome sys (trace w) (Exec p args)")
  case (Inl err)
  then show ?thesis
    using failed[of err "snd (runCommand sys p args w)"] perform_trace[of sys "Exec p args" w]
      perform_fst[of sys "Exec p args" w]
    by (simp add: runCommand_def prod_eq_iff)
next
  case (Inr u)
  then show ?thesis
    using succeeded[of "snd (runCommand sys p args w)"] perform_trace[of sys "Exec p args" w]
      perform_fst[of sys "Exec p args" w]
    by (simp add: runCommand_def prod_eq_iff)
qed

lemma destroyContainer_trace:
  "\<exists>h. trace (snd (destroyContainer sys c w)) = trace w @ h \<and> cleanupOnly c h"
proof (cases rule: runCommand_cases[of sys "''docker''" "[''stop'', c]" w])
  case (failed err w1)
  then show ?thesis
    by (simp add: destroyContainer_def cleanupOnly_def destroyCalls_def isStep_def)
next
  case (succeeded w1)
  show ?thesis
  proof (cases rule: runCommand_cases[of sys "''docker''" "[''rm'', c]" w1])
    case (failed err w2)
    then show ?thesis using succeeded
      by (auto simp: destroyContainer_def cleanupOnly_def destroyCalls_def isStep_def)
  next
    case inner: (succeeded w2)
    then show ?thesis using succeeded
      by (auto simp: destroyContainer_def cleanupOnly_def destroyCalls_def isStep_def)
  qed
qed

lemma destroyCalls_append: "destroyCalls c (h1 @ h2) = destroyCalls c h1 + destroyCalls c h2"
  by (simp add: destroyCalls_def)

lemma runInContainer_trace:
  assumes "\<forall>args \<in> set cmds. isStep args"
  shows "\<exists>h. trace (snd (runInContainer sys c cmds w)) = trace w @ h
           \<and> destroyCalls c h = 1
           \<and> primarySurfaced c (fst (runInContainer sys c cmds w)) h"
  using assms
proof (induction cmds arbitrary: w)
  case Nil
  obtain h where h: "trace (snd (destroyContainer sys c w)) = trace w @ h" "cleanupOnly c h"
    using destroyContainer_trace by blast
  then show ?case by (auto simp: cleanupOnly_def primarySurfaced_def)
next
  case (Cons args cmds)
  have step: "isStep args" using Cons.prems by simp
  then have nostop: "args \<noteq> [''stop'', c]" by (auto simp: isStep_def)
  show ?case
  proof (cases rule: runCommand_cases[of sys "''docker''" args w])
    case (failed err w1)
    obtain h where h: "trace (snd (destroyContainer sys c w1)) = trace w1 @ h" "cleanupOnly c h"
      using destroyContainer_trace by blast
    let ?h = "(Exec ''docker'' args, Inl err) # h"
    have "trace (snd (runInContainer sys c (args # cmds) w)) = trace w @ ?h"
      using failed h by simp
    moreover have "destroyCalls c ?h = 1"
      using h(2) nostop by (simp add: cleanupOnly_def destroyCalls_def)
    moreover have "primarySurfaced c (fst (runInContainer sys c (args # cmds) w)) ?h"
      using failed h(2) \<open>destroyCalls c ?h = 1\<close>
      unfolding primarySurfaced_def cleanupOnly_def by auto
    ultimately show ?thesis by blast
  next
    case (succeeded w1)
    obtain h where h: "trace (snd (runInContainer sys c cmds w1)) = trace w1 @ h"
      "destroyCalls c h = 1" "primarySurfaced c (fst (runInContainer sys c cmds w1)) h"
      using Cons.IH[of w1] Cons.prems by auto
    let ?h = "(Exec ''docker'' args, Inr ()) # h"
    have "trace (snd (runInContainer sys c (args # cmds) w)) = trace w @ ?h"
      using succeeded h by simp
    moreover have d: "destroyCalls c ?h = 1"
      using h(2) nostop by (simp add: destroyCalls_def)
    moreover have "primarySurfaced c (fst (runInContainer sys c (args # cmds) w)) ?h"
      using succeeded h(3) d unfolding primarySurfaced_def by auto
    ultimately show ?thesis by blast
  qed
qed

lemma buildSteps_are_steps:
  "\<forall>args \<in> set (buildSteps d tags buildPrefix packageCache env). isStep args"
  by (auto simp: buildSteps_def isStep_def Let_def)

lemma perform_cases:
  obtains (failed) err w1 where "perform sys a w = (Inl err, w1)"
      "trace w1 = trace w @ [(a, Inl err)]"
  | (succeeded) w1 where "perform sys a w = (Inr (), w1)"
      "trace w1 = trace w @ [(a, Inr ())]"
proof (cases "outcome sys (trace w) a")
  case (Inl err)
  then show ?thesis
    using failed[of err "snd (perform sys a w)"] perform_trace[of sys a w] perform_fst[of sys a w]
    by (simp add: prod_eq_iff)
next
  case (Inr u)
  then show ?thesis
    using succeeded[of "snd (perform sys a w)"] perform_trace[of sys a w] perform_fst[of sys a w]
    by (simp add: prod_eq_iff)
qed

lemma startArgs_not_step: "\<not> isStep (startArgs d bp pc)" "startArgs d bp pc \<noteq> [''stop'', c]"
  by (simp_all add: startArgs_def isStep_def Let_def)

lemma started_trace:
  assumes "trace w2 = trace w1 @ [(Exec ''docker'' (startArgs d bp pc), r)]"
  shows "\<exists>h. trace (snd (runInContainer sys (buildingName d) (buildSteps d tags bp pc env) w2))
              = trace w1 @ h
           \<and> primarySurfaced (buildingName d)
               (fst (runInContainer sys (buildingName d) (buildSteps d tags bp pc env) w2)) h"
proof -
  let ?r = "runInContainer sys (buildingName d) (buildSteps d tags bp pc env) w2"
  obtain h where h: "trace (snd ?r) = trace w2 @ h" "destroyCalls (buildingName d) h = 1"
    "primarySurfaced (buildingName d) (fst ?r) h"
    using runInContainer_trace[OF buildSteps_are_steps] by blast
  let ?h = "(Exec ''docker'' (startArgs d bp pc), r) # h"
  have "trace (snd ?r) = trace w1 @ ?h" using h(1) assms by simp
  moreover have "destroyCalls (buildingName d) ?h = 1"
    using h(2) startArgs_not_step(2) by (simp add: destroyCalls_def)
  then have "primarySurfaced (buildingName d) (fst ?r) ?h"
    using h(3) startArgs_not_step(1) unfolding primarySurfaced_def by auto
  ultimately show ?thesis by blast
qed

lemma after_prelude_trace:
  "\<exists>h. trace (snd (case runCommand sys ''docker'' (startArgs d bp pc) w1 of
             (Inl err, w2) \<Rightarrow> (Inl err, w2)
           | (Inr v, w2) \<Rightarrow>
               runInContainer sys (buildingName d) (buildSteps d tags bp pc env) w2)) = trace w1 @ h
       \<and> primarySurfaced (buildingName d)
           (fst (case runCommand sys ''docker'' (startArgs d bp pc) w1 of
             (Inl err, w2) \<Rightarrow> (Inl err, w2)
           | (Inr v, w2) \<Rightarrow>
               runInContainer sys (buildingName d) (buildSteps d tags bp pc env) w2)) h"
proof (cases rule: runCommand_cases[of sys "''docker''" "startArgs d bp pc" w1])
  case (failed err w2)
  then show ?thesis using startArgs_not_step(1)[of d bp pc]
    by (auto simp: primarySurfaced_def)
next
  case (succeeded w2)
  then show ?thesis using started_trace[OF succeeded(2)] by simp
qed

lemma primarySurfaced_prefix:
  assumes "primarySurfaced c res h"
  shows "primarySurfaced c res ((MkdirAll p, r) # h)"
  using assms by (auto simp: primarySurfaced_def destroyCalls_def)

lemma BuildImageLayer_trace:
  "\<exists>h. trace (snd (BuildImageLayer sys d tags bp pc env w)) = trace w @ h
       \<and> primarySurfaced (buildingName d) (fst (BuildImageLayer sys d tags bp pc env w)) h"
proof (cases "length pc > 0 \<and> pc \<notin> dirs w")
  case False
  show ?thesis
    unfolding BuildImageLayer_def if_not_P[OF False]
    using after_prelude_trace[where sys=sys and d=d and bp=bp and pc=pc and ?w1.0=w and tags=tags and env=env]
    by simp
next
  case True
  show ?thesis
  proof (cases rule: perform_cases[of sys "MkdirAll pc" w])
    case (failed err w1)
    then show ?thesis
      unfolding BuildImageLayer_def if_P[OF True]
      by (auto simp: primarySurfaced_def)
  next
    case (succeeded w1)
    obtain h where h: "trace (snd (BuildImageLayer sys d tags bp pc env w)) = trace w1 @ h"
      "primarySurfaced (buildingName d) (fst (BuildImageLayer sys d tags bp pc env w)) h"
      unfolding BuildImageLayer_def if_P[OF True]
      using after_prelude_trace[where sys=sys and d=d and bp=bp and pc=pc and ?w1.0=w1 and tags=tags and env=env] succeeded
      by auto
    then show ?thesis using succeeded(2) primarySurfaced_prefix[OF h(2)]
      by (intro exI[of _ "(MkdirAll pc, Inr ()) # h"]) simp
  qed
qed

lemmas run_simps = BuildImageLayer_def startArgs_def buildSteps_def buildingName_def
  runCommand_def perform_def effect_def dirsEffect_def filesEffect_def destroyContainer_def chrootAddMount_def
  isExternal_def Let_def

lemma failing_build:
  "BuildImageLayer failingSystem (mkImage ''base'' ''external:os/base'') [] [] [] [] emptyWorld
   = (Inl (SystemError ''commit failed''),
      \<lparr> dirs = {}, files = Map.empty,
        trace =
          [(Exec ''docker'' [''run'', ''-d'', ''-v'', ''/images:/images'', ''--privileged'',
                             ''--name'', ''darch-building-base'', ''os/base''], Inr ()),
           (Exec ''docker'' [''exec'', ''--privileged'', ''darch-building-base'', ''mkdir'',
                             ''/root.x86_64/images/''], Inr ()),
           (Exec ''docker'' [''exec'', ''--privileged'', ''darch-building-base'', ''bash'', ''-c'',
                             chrootAddMount ''/images'' ''/root.x86_64/images''], Inr ()),
           (Exec ''docker'' [''exec'', ''--privileged'', ''darch-building-base'',
                             ''arch-chroot-custom'', ''/root.x86_64'', ''/bin/bash'', ''-c'',
                             ''cd /images/base && ./script''], Inr ()),
           (Exec ''docker'' [''exec'', ''--privileged'', ''darch-building-base'', ''rm'', ''-r'',
                             ''/root.x86_64/images''], Inr ()),
           (Exec ''docker'' [''exec'', ''--privileged'', ''darch-building-base'', ''rm'', ''-r'',
                             ''-f'', ''/root.x86_64/var/cache/pacman/pkg/''], Inr ()),
           (Exec ''docker'' [''commit'', ''darch-building-base'', ''base''],
              Inl (SystemError ''commit failed'')),
           (Exec ''docker'' [''stop'', ''darch-building-base''],
              Inl (SystemError ''stop failed''))] \<rparr>)"
  by (simp add: run_simps failingSystem_def emptyWorld_def mkImage_def)

section \<open>State and trace of the docker extraction\<close>

lemma perform_ok:
  assumes "perform sys a w = (Inr (), w')"
  shows "dirs w' = dirsEffect sys a (dirs w)" "files w' = filesEffect sys a (files w)"
    "trace w' = trace w @ [(a, Inr ())]"
  using assms by (auto simp: perform_def effect_def split: sum.splits)

lemma perform_failed:
  assumes "perform sys a w = (Inl err, w')"
  shows "dirs w' = dirs w" "files w' = files w" "trace w' = trace w @ [(a, Inl err)]"
  using assms by (auto simp: perform_def split: sum.splits)

lemma exec_keeps_dirs: "dirsEffect sys (Exec p args) ds = ds"
  by (simp add: dirsEffect_def)

lemma stop_rm_keep_files:
  "filesEffect sys (Exec p [verb, c]) fs = fs"
  by (simp add: filesEffect_def)

lemma destroyContainer_state:
  "dirs (snd (destroyContainer sys c w)) = dirs w"
  "files (snd (destroyContainer sys c w)) = files w"
proof -
  have "dirs (snd (destroyContainer sys c w)) = dirs w
        \<and> files (snd (destroyContainer sys c w)) = files w"
  proof (cases "perform sys (Exec ''docker'' [''stop'', c]) w")
    case (Pair r1 w1)
    show ?thesis
    proof (cases r1)
      case (Inl err)
      then show ?thesis using Pair perform_failed[of sys _ w err w1]
        by (simp add: destroyContainer_def runCommand_def)
    next
      case (Inr u)
      then have ok1: "perform sys (Exec ''docker'' [''stop'', c]) w = (Inr (), w1)"
        using Pair by simp
      note s1 = perform_ok[OF ok1]
      show ?thesis
      proof (cases "perform sys (Exec ''docker'' [''rm'', c]) w1")
        case inner: (Pair r2 w2)
        show ?thesis
        proof (cases r2)
          case (Inl err)
          then show ?thesis using ok1 inner s1 perform_failed[of sys _ w1 err w2]
            by (simp add: destroyContainer_def runCommand_def exec_keeps_dirs stop_rm_keep_files)
        next
          case (Inr v)
          then have ok2: "perform sys (Exec ''docker'' [''rm'', c]) w1 = (Inr (), w2)"
            using inner by simp
          show ?thesis using ok1 ok2 s1 perform_ok[OF ok2]
            by (simp add: destroyContainer_def runCommand_def exec_keeps_dirs stop_rm_keep_files)
        qed
      qed
    qed
  qed
  then show "dirs (snd (destroyContainer sys c w)) = dirs w"
    "files (snd (destroyContainer sys c w)) = files w" by simp_all
qed

lemma runInContainer_ok:
  "runInContainer sys c cmds w = (Inr (), w') \<Longrightarrow>
     dirs w' = dirs w
     \<and> files w' = foldl (\<lambda>fs args. filesEffect sys (Exec ''docker'' args) fs) (files w) cmds"
proof (induction cmds arbitrary: w)
  case Nil
  then show ?case using destroyContainer_state[of sys c w] by (simp add: prod_eq_iff)
next
  case (Cons args cmds)
  from Cons.prems obtain w1 where ok: "perform sys (Exec ''docker'' args) w = (Inr (), w1)"
    and rest: "runInContainer sys c cmds w1 = (Inr (), w')"
    by (auto simp: runCommand_def split: prod.splits sum.splits)
  show ?case using Cons.IH[OF rest] perform_ok[OF ok] by (simp add: exec_keeps_dirs)
qed

lemma extractSteps_files:
  "foldl (\<lambda>fs args. filesEffect sys (Exec ''docker'' args) fs) fs
     (extractSteps sys (extractingName name) destination)
   = written sys name destination fs"
  by (simp add: extractSteps_def filesEffect_def written_def)

lemma ExtractImage_ok:
  assumes "ExtractImage sys name tag destination w = (Inr (), w')"
  shows "dirs w' = {q \<in> insert destination (dirs w). q = destination \<or> \<not> beneath sys destination q}"
    and "files w' = written sys name destination
                      (\<lambda>p. if beneath sys destination p then None else files w p)"
proof -
  obtain w1 where pre: "(if destination \<notin> dirs w then perform sys (MkdirAll destination) w
               else (Inr (), w)) = (Inr (), w1)"
    and rest: "(case perform sys (CleanDirectory destination) w1 of
                (Inl err, w2) \<Rightarrow> (Inl err, w2)
              | (Inr v, w2) \<Rightarrow>
                  (case runCommand sys ''docker''
                          [''run'', ''-d'', ''--privileged'', ''--name'', extractingName name,
                           (if length tag > 0 then name @ '':'' @ tag else name)]
                          w2 of
                     (Inl err, w3) \<Rightarrow> (Inl err, w3)
                   | (Inr x, w3) \<Rightarrow>
                       runInContainer sys (extractingName name)
                         (extractSteps sys (extractingName name) destination) w3)) = (Inr (), w')"
    using assms unfolding ExtractImage_def Let_def
    by (auto split: prod.splits sum.splits)
  have d1: "dirs w1 = insert destination (dirs w)" and f1: "files w1 = files w"
    using pre perform_ok[of sys "MkdirAll destination" w w1]
    by (auto simp: dirsEffect_def filesEffect_def split: if_splits)
  obtain w2 where clean: "perform sys (CleanDirectory destination) w1 = (Inr (), w2)"
    and rest2: "(case runCommand sys ''docker''
                          [''run'', ''-d'', ''--privileged'', ''--name'', extractingName name,
                           (if length tag > 0 then name @ '':'' @ tag else name)]
                          w2 of
                     (Inl err, w3) \<Rightarrow> (Inl err, w3)
                   | (Inr x, w3) \<Rightarrow>
                       runInContainer sys (extractingName name)
                         (extractSteps sys (extractingName name) destination) w3) = (Inr (), w')"
    using rest by (auto split: prod.splits sum.splits)
  note c = perform_ok[OF clean]
  obtain w3 where run: "perform sys (Exec ''docker''
                          [''run'', ''-d'', ''--privileged'', ''--name'', extractingName name,
                           (if length tag > 0 then name @ '':'' @ tag else name)]) w2 = (Inr (), w3)"
    and steps: "runInContainer sys (extractingName name)
                  (extractSteps sys (extractingName name) destination) w3 = (Inr (), w')"
    using rest2 by (auto simp: runCommand_def split: prod.splits sum.splits)
  note r = perform_ok[OF run]
  have r_files: "files w3 = files w2" using r(2) by (simp add: filesEffect_def)
  have r_dirs: "dirs w3 = dirs w2" using r(1) by (simp add: exec_keeps_dirs)
  note s = runInContainer_ok[OF steps]
  show "dirs w' = {q \<in> insert destination (dirs w). q = destination \<or> \<not> beneath sys destination q}"
    using s r_dirs c(1) d1 by (simp add: dirsEffect_def)
  show "files w' = written sys name destination
                      (\<lambda>p. if beneath sys destination p then None else files w p)"
  proof -
    have "files w' = written sys name destination (files w3)"
      using s by (simp only: extractSteps_files)
    moreover have "files w3 = (\<lambda>p. if beneath sys destination p then None else files w p)"
      using r_files c(2) f1 by (simp add: filesEffect_def)
    ultimately show ?thesis by simp
  qed
qed


lemma written_clean_idem:
  "written sys name destination
     (\<lambda>p. if beneath sys destination p then None
          else written sys name destination
                 (\<lambda>q. if beneath sys destination q then None else fs q) p)
   = written sys name destination (\<lambda>p. if beneath sys destination p then None else fs p)"
  by (rule ext) (simp add: written_def)

lemma runInContainer_extends:
  "\<exists>h. trace (snd (runInContainer sys c cmds w)) = trace w @ h"
proof (induction cmds arbitrary: w)
  case Nil
  then show ?case using destroyContainer_trace[of sys c w] by auto
next
  case (Cons args cmds)
  show ?case
  proof (cases rule: runCommand_cases[of sys "''docker''" args w])
    case (failed err w1)
    then show ?thesis using destroyContainer_trace[of sys c w1] by auto
  next
    case (succeeded w1)
    then show ?thesis using Cons.IH[of w1] by auto
  qed
qed

lemma ExtractImage_trace:
  fixes w :: "'w world_scheme"
  shows "\<exists>h. newTrace w (snd (ExtractImage sys name tag destination w)) = h
     \<and> ((\<forall>args r. (Exec ''docker'' args, r) \<notin> set h)
        \<or> (\<exists>rest. h = (if destination \<in> dirs w then [] else [(MkdirAll destination, Inr ())])
                        @ (CleanDirectory destination, Inr ()) # rest))"
proof -
  define run where "run = [''run'', ''-d'', ''--privileged'', ''--name'', extractingName name,
               (if length tag > 0 then name @ '':'' @ tag else name)]"
  have after_clean: "\<exists>rest. trace (snd (case runCommand sys ''docker'' run w2 of
                     (Inl err, w3) \<Rightarrow> (Inl err, w3)
                   | (Inr x, w3) \<Rightarrow>
                       runInContainer sys (extractingName name)
                         (extractSteps sys (extractingName name) destination) w3)) = trace w2 @ rest"
    for w2 :: "'w world_scheme"
  proof (cases rule: runCommand_cases[of sys "''docker''" run w2])
    case (failed err w3)
    then show ?thesis by simp
  next
    case (succeeded w3)
    obtain h where "trace (snd (runInContainer sys (extractingName name)
                         (extractSteps sys (extractingName name) destination) w3)) = trace w3 @ h"
      using runInContainer_extends by blast
    then show ?thesis using succeeded by simp
  qed
  have from_clean: "\<exists>h. trace (snd (case perform sys (CleanDirectory destination) w1 of
                (Inl err, w2) \<Rightarrow> (Inl err, w2)
              | (Inr v, w2) \<Rightarrow>
                  (case runCommand sys ''docker'' run w2 of
                     (Inl err, w3) \<Rightarrow> (Inl err, w3)
                   | (Inr x, w3) \<Rightarrow>
                       runInContainer sys (extractingName name)
                         (extractSteps sys (extractingName name) destination) w3))) = trace w1 @ h
            \<and> ((\<forall>args r. (Exec ''docker'' args, r) \<notin> set h)
                 \<or> (\<exists>rest. h = (CleanDirectory destination, Inr ()) # rest))"
    for w1 :: "'w world_scheme"
  proof (cases rule: perform_cases[of sys "CleanDirectory destination" w1])
    case (failed err w2)
    then show ?thesis by simp
  next
    case (succeeded w2)
    obtain rest where "trace (snd (case runCommand sys ''docker'' run w2 of
                     (Inl err, w3) \<Rightarrow> (Inl err, w3)
                   | (Inr x, w3) \<Rightarrow>
                       runInContainer sys (extractingName name)
                         (extractSteps sys (extractingName name) destination) w3)) = trace w2 @ rest"
      using after_clean by blast
    then show ?thesis using succeeded by simp
  qed
  show ?thesis
  proof (cases "destination \<in> dirs w")
    case True
    then show ?thesis
      using from_clean[of w] unfolding ExtractImage_def Let_def newTrace_def run_def[symmetric] by auto
  next
    case False
    show ?thesis
    proof (cases rule: perform_cases[of sys "MkdirAll destination" w])
      case (failed err w1)
      then show ?thesis using False
        unfolding ExtractImage_def Let_def newTrace_def run_def[symmetric] by simp
    next
      case (succeeded w1)
      then show ?thesis using False from_clean[of w1]
        unfolding ExtractImage_def Let_def newTrace_def run_def[symmetric] by auto
    qed
  qed
qed

lemmas extract_simps = ExtractImage_def extractSteps_def extractingName_def
  runCommand_def perform_def effect_def dirsEffect_def filesEffect_def destroyContainer_def
  Let_def

lemma first_extract_ok:
  "fst (ExtractImage obligingSystem ''myimage'' [] ''/out'' staleWorld) = Inr ()"
  by (simp add: extract_simps obligingSystem_def staleWorld_def)

lemma obliging_extract_trace:
  fixes w :: world
  assumes "''/out'' \<in> dirs w"
  shows "newTrace w (snd (ExtractImage obligingSystem ''myimage'' [] ''/out'' w)) = extractionLog"
  using assms by (simp add: extract_simps obligingSystem_def newTrace_def extractionLog_def)

lemma first_extract_trace:
  "newTrace staleWorld (snd (ExtractImage obligingSystem ''myimage'' [] ''/out'' staleWorld))
   = extractionLog"
  by (rule obliging_extract_trace) (simp add: staleWorld_def)

lemma first_extract_dirs:
  "dirs (snd (ExtractImage obligingSystem ''myimage'' [] ''/out'' staleWorld)) = {''/out''}"
  by (auto simp: extract_simps obligingSystem_def staleWorld_def)

lemma second_extract_ok:
  "fst (ExtractImage obligingSystem ''myimage'' [] ''/out''
          (snd (ExtractImage obligingSystem ''myimage'' [] ''/out'' staleWorld))) = Inr ()"
  by (simp add: extract_simps obligingSystem_def staleWorld_def)

lemma second_extract_trace:
  "newTrace (snd (ExtractImage obligingSystem ''myimage'' [] ''/out'' staleWorld))
     (snd (ExtractImage obligingSystem ''myimage'' [] ''/out''
          (snd (ExtractImage obligingSystem ''myimage'' [] ''/out'' staleWorld))))
   = extractionLog"
  by (rule obliging_extract_trace) (simp add: first_extract_dirs)

section \<open>The copy phase and the snapshot keys of the containerd extraction\<close>

lemma perform_issued: "issued (snd (perform rt a w)) = issued w"
  by (simp add: perform_def effect_def split: sum.splits)

lemma copyVisited_cases:
  obtains (passed) "copyVisited rt srcDir destination entry w = (Inr (), w)"
      "\<exists>path f. entry = (path, f, Inr ()) \<and> (IsDir f \<or> \<not> prefix srcDir path)"
  | (reported) err where "copyVisited rt srcDir destination entry w = (Inl err, w)"
  | (copied) path f where "entry = (path, f, Inr ())" "\<not> IsDir f" "prefix srcDir path"
      "copyVisited rt srcDir destination entry w
       = perform rt (CopyFile path (Join rt destination (drop (length srcDir) path))) w"
proof (cases entry)
  case (fields path f walkErr)
  show ?thesis
  proof (cases walkErr)
    case (Inl err)
    then show ?thesis using fields reported[of err] by (simp add: copyVisited_def)
  next
    case (Inr u)
    show ?thesis
    proof (cases "\<not> IsDir f \<and> prefix srcDir path")
      case True
      then show ?thesis using fields Inr copied[of path f] by (simp add: copyVisited_def)
    next
      case False
      then show ?thesis using fields Inr passed by (auto simp: copyVisited_def)
    qed
  qed
qed

lemma Walk_copies:
  "\<exists>h. trace (snd (Walk (copyVisited rt srcDir destination) entries w)) = trace w @ h
       \<and> issued (snd (Walk (copyVisited rt srcDir destination) entries w)) = issued w
       \<and> (\<forall>e \<in> set h. copiedFrom rt srcDir destination entries (fst e))"
proof (induction entries arbitrary: w)
  case Nil
  then show ?case by simp
next
  case (Cons entry entries)
  have mono: "copiedFrom rt srcDir destination entries a
              \<Longrightarrow> copiedFrom rt srcDir destination (entry # entries) a" for a
    by (auto simp: copiedFrom_def)
  show ?case
  proof (cases rule: copyVisited_cases[of rt srcDir destination entry w])
    case passed
    then show ?thesis using Cons.IH[of w] mono by auto
  next
    case (reported err)
    then show ?thesis by simp
  next
    case (copied path f)
    let ?a = "CopyFile path (Join rt destination (drop (length srcDir) path))"
    have origin: "copiedFrom rt srcDir destination (entry # entries) ?a"
      using copied(1-3) by (auto simp: copiedFrom_def)
    show ?thesis
    proof (cases rule: perform_cases[of rt ?a w])
      case (failed err w1)
      then show ?thesis using copied(4) origin by simp (metis perform_issued snd_conv)
    next
      case (succeeded w1)
      obtain h where h: "trace (snd (Walk (copyVisited rt srcDir destination) entries w1))
                         = trace w1 @ h"
        "issued (snd (Walk (copyVisited rt srcDir destination) entries w1)) = issued w1"
        "\<forall>e \<in> set h. copiedFrom rt srcDir destination entries (fst e)"
        using Cons.IH[of w1] by blast
      have i1: "issued w1 = issued w" using succeeded(1) perform_issued[of rt ?a w] by simp
      have "trace (snd (Walk (copyVisited rt srcDir destination) (entry # entries) w))
            = trace w @ (?a, Inr ()) # h"
        using copied(4) succeeded h(1) by simp
      moreover have "issued (snd (Walk (copyVisited rt srcDir destination) (entry # entries) w))
                     = issued w"
        using copied(4) succeeded h(2) i1 by simp
      moreover have "\<forall>e \<in> set ((?a, Inr ()) # h).
                       copiedFrom rt srcDir destination (entry # entries) (fst e)"
        using h(3) origin mono by auto
      ultimately show ?thesis by blast
    qed
  qed
qed

lemma example_copyPhase:
  "newTrace freshSession (snd (copyPhase exampleRuntime ''/tmp/out'' ''/mnt'' freshSession))
   = [(CopyFile ''/mnt/extract/etc/hostname'' ''/tmp/out/etc/hostname'', Inr ()),
      (CopyFile ''/mnt/extract/etc/localtime'' ''/tmp/out/etc/localtime'', Inr ())]"
  by (simp add: copyPhase_def copyVisited_def exampleRuntime_def freshSession_def mountedFiles_def
      IsDir_def perform_def effect_def dirsEffect_def filesEffect_def newTrace_def Let_def)

lemma extends_refl: "extends P w w"
  by (simp add: extends_def)

lemma extends_trans: "extends P w w1 \<Longrightarrow> extends P w1 w2 \<Longrightarrow> extends P w w2"
  by (auto simp: extends_def)

lemma extends_perform: "P a \<Longrightarrow> extends P w (snd (perform rt a w))"
  by (simp add: extends_def perform_trace perform_issued)

lemma extends_case:
  assumes "P a" and "\<And>w1. extends P w1 (snd (K w1))"
  shows "extends P w (snd (case perform rt a w of
                             (Inl err, w1) \<Rightarrow> (Inl err, w1)
                           | (Inr u, w1) \<Rightarrow> K w1))"
proof (cases "perform rt a w")
  case (Pair res w1)
  have one: "extends P w w1"
    using extends_perform[where P=P and a=a and w=w and rt=rt] assms(1) Pair by simp
  show ?thesis
  proof (cases res)
    case (Inl err)
    then show ?thesis using Pair one by simp
  next
    case (Inr u)
    then show ?thesis using Pair extends_trans[OF one assms(2)[of w1]] by simp
  qed
qed

lemma extends_deferred:
  assumes "P a" and "extends P w (snd r)"
  shows "extends P w (snd (deferred rt a r))"
proof -
  have "extends P (snd r) (snd (perform rt a (snd r)))"
    using extends_perform[where P=P and a=a] assms(1) by blast
  then show ?thesis using extends_trans[OF assms(2)] by (simp add: deferred_def)
qed

lemma copiedFrom_noCreate: "copiedFrom rt srcDir destination entries a \<Longrightarrow> noCreate a"
  by (auto simp: copiedFrom_def noCreate_def)

lemma extends_copyPhase: "extends noCreate w (snd (copyPhase rt destination root w))"
  using Walk_copies[of rt "Join rt root ''extract''" destination
      "walkEntries rt (trace w) (Join rt root ''extract'')" w]
  unfolding copyPhase_def Let_def extends_def
  by (blast intro: copiedFrom_noCreate)

lemma extends_WithTempMount:
  "extends noCreate w (snd (WithTempMount rt k (copyPhase rt destination) w))"
proof (cases "perform rt (TempMount k) w")
  case (Pair res w1)
  have one: "extends noCreate w w1"
    using extends_perform[of noCreate "TempMount k" w rt] Pair by (simp add: noCreate_def)
  show ?thesis
  proof (cases res)
    case (Inl err)
    then show ?thesis using Pair one by (simp add: WithTempMount_def)
  next
    case (Inr u)
    let ?root = "mountRoot rt (trace w1)"
    let ?w2 = "snd (copyPhase rt destination ?root w1)"
    have two: "extends noCreate w1 ?w2" by (rule extends_copyPhase)
    have three: "extends noCreate ?w2 (snd (perform rt (Unmount ?root) ?w2))"
      by (rule extends_perform) (simp add: noCreate_def)
    have "snd (WithTempMount rt k (copyPhase rt destination) w)
          = snd (perform rt (Unmount ?root) ?w2)"
      using Pair Inr by (simp add: WithTempMount_def Let_def split: prod.splits sum.splits)
    then show ?thesis using extends_trans[OF one extends_trans[OF two three]] by simp
  qed
qed

lemma noCreate_keyedBy: "noCreate a \<Longrightarrow> keyedBy k a"
  by (simp add: noCreate_def keyedBy_def)

lemma extends_mono: "extends P w w' \<Longrightarrow> (\<And>a. P a \<Longrightarrow> Q a) \<Longrightarrow> extends Q w w'"
  by (auto simp: extends_def)

lemma grown_case:
  assumes "noCreate a" and "\<And>w1. grown rt w1 (snd (K w1))"
  shows "grown rt w (snd (case perform rt a w of
                           (Inl err, w1) \<Rightarrow> (Inl err, w1)
                         | (Inr u, w1) \<Rightarrow> K w1))"
proof (cases rule: perform_cases[of rt a w])
  case (failed err w1)
  have "issued w1 = issued w" using failed(1) perform_issued[of rt a w] by simp
  then show ?thesis using failed assms(1) by (simp add: grown_def noCreate_keyedBy)
next
  case (succeeded w1)
  have i: "issued w1 = issued w" using succeeded(1) perform_issued[of rt a w] by simp
  obtain h where h: "trace (snd (K w1)) = trace w1 @ h"
    "\<forall>e \<in> set h. keyedBy (generate rt (issued w1)) (fst e)"
    "issued (snd (K w1)) = issued w1 \<and> (\<forall>e \<in> set h. noCreate (fst e))
       \<or> issued (snd (K w1)) = issued w1 @ [generate rt (issued w1)]"
    using assms(2)[of w1] unfolding grown_def by blast
  have "trace (snd (K w1)) = trace w @ (a, Inr ()) # h" using h(1) succeeded(2) by simp
  moreover have "\<forall>e \<in> set ((a, Inr ()) # h). keyedBy (generate rt (issued w)) (fst e)"
    using h(2) i assms(1) by (simp add: noCreate_keyedBy)
  moreover have "issued (snd (K w1)) = issued w \<and> (\<forall>e \<in> set ((a, Inr ()) # h). noCreate (fst e))
       \<or> issued (snd (K w1)) = issued w @ [generate rt (issued w)]"
    using h(3) i assms(1) by auto
  ultimately have "grown rt w (snd (K w1))" unfolding grown_def by blast
  then show ?thesis using succeeded(1) by simp
qed

lemma grown_deferred:
  assumes "noCreate a" and "grown rt w (snd r)"
  shows "grown rt w (snd (deferred rt a r))"
proof -
  obtain h where h: "trace (snd r) = trace w @ h"
    "\<forall>e \<in> set h. keyedBy (generate rt (issued w)) (fst e)"
    "issued (snd r) = issued w \<and> (\<forall>e \<in> set h. noCreate (fst e))
       \<or> issued (snd r) = issued w @ [generate rt (issued w)]"
    using assms(2) unfolding grown_def by blast
  let ?w' = "snd (perform rt a (snd r))"
  let ?e = "(a, outcome rt (trace (snd r)) a)"
  have "trace ?w' = trace w @ (h @ [?e])" using h(1) by (simp add: perform_trace)
  moreover have "\<forall>e \<in> set (h @ [?e]). keyedBy (generate rt (issued w)) (fst e)"
    using h(2) assms(1) by (simp add: noCreate_keyedBy)
  moreover have "issued ?w' = issued w \<and> (\<forall>e \<in> set (h @ [?e]). noCreate (fst e))
       \<or> issued ?w' = issued w @ [generate rt (issued w)]"
    using h(3) assms(1) by (auto simp: perform_issued)
  ultimately have "grown rt w ?w'" unfolding grown_def by blast
  then show ?thesis by (simp add: deferred_def)
qed

lemma grown_NewID:
  assumes "noCreate a" and "\<And>k w4. extends (keyedBy k) w4 (snd (B k w4))"
  shows "grown rt w (snd (case NewID rt (snd (perform rt a w)) of (k, w4) \<Rightarrow> B k w4))"
proof -
  let ?w1 = "snd (perform rt a w)"
  let ?k = "generate rt (issued w)"
  let ?w4 = "?w1\<lparr> issued := issued w @ [?k] \<rparr>"
  have new: "NewID rt ?w1 = (?k, ?w4)" by (simp add: NewID_def perform_issued Let_def)
  obtain h where h: "trace (snd (B ?k ?w4)) = trace ?w4 @ h" "issued (snd (B ?k ?w4)) = issued ?w4"
    "\<forall>e \<in> set h. keyedBy ?k (fst e)"
    using assms(2)[of ?k ?w4] unfolding extends_def by blast
  let ?e = "(a, outcome rt (trace w) a)"
  have "trace (snd (B ?k ?w4)) = trace w @ ?e # h" using h(1) by (simp add: perform_trace)
  moreover have "\<forall>e \<in> set (?e # h). keyedBy ?k (fst e)"
    using h(3) assms(1) by (simp add: noCreate_keyedBy)
  moreover have "issued (snd (B ?k ?w4)) = issued w @ [?k]" using h(2) by simp
  ultimately have "grown rt w (snd (B ?k ?w4))" unfolding grown_def by blast
  then show ?thesis unfolding new by simp
qed

lemma snd_case_result:
  "snd (case r of (Inl err, w) \<Rightarrow> (Inl err, w) | (Inr u, w) \<Rightarrow> (Inr (), w)) = snd r"
  by (simp split: prod.splits sum.splits)

lemma SessionExtractImage_grown:
  "grown rt w (snd (SessionExtractImage rt fullName destination w))"
  unfolding SessionExtractImage_def
  apply (rule grown_case)
   apply (simp add: noCreate_def)
  apply (rule grown_deferred)
   apply (simp add: noCreate_def)
  apply (rule grown_case)
   apply (simp add: noCreate_def)
  apply (rule grown_case)
   apply (simp add: noCreate_def)
  apply (rule grown_deferred)
   apply (simp add: noCreate_def)
  apply (rule grown_NewID)
   apply (simp add: noCreate_def)
  apply (rule extends_case)
   apply (simp add: keyedBy_def)
  apply (rule extends_deferred)
   apply (simp add: keyedBy_def)
  apply (rule extends_case)
   apply (simp add: keyedBy_def)
  apply (rule extends_case)
   apply (simp add: keyedBy_def)
  apply (simp only: snd_case_result)
  apply (rule extends_mono[OF extends_WithTempMount])
  apply (erule noCreate_keyedBy)
  done

lemma performs_refl: "performs P w w"
  by (simp add: performs_def)

lemma performs_trans: "performs P w w1 \<Longrightarrow> performs P w1 w2 \<Longrightarrow> performs P w w2"
  by (auto simp: performs_def)

lemma performs_mono: "performs P w w' \<Longrightarrow> (\<And>a. P a \<Longrightarrow> Q a) \<Longrightarrow> performs Q w w'"
  by (auto simp: performs_def)

lemma performs_perform: "P a \<Longrightarrow> performs P w (snd (perform sys a w))"
  by (simp add: performs_def perform_trace)

lemma performs_case:
  assumes "P a" and "\<And>w1. performs P w1 (snd (K w1))"
  shows "performs P w (snd (case perform sys a w of
                              (Inl err, w1) \<Rightarrow> (Inl err, w1)
                            | (Inr u, w1) \<Rightarrow> K w1))"
proof (cases "perform sys a w")
  case (Pair res w1)
  have one: "performs P w w1"
    using performs_perform[where P=P and a=a and w=w and sys=sys] assms(1) Pair by simp
  show ?thesis
  proof (cases res)
    case (Inl err)
    then show ?thesis using Pair one by simp
  next
    case (Inr u)
    then show ?thesis using Pair performs_trans[OF one assms(2)[of w1]] by simp
  qed
qed

lemma performs_destroyContainer:
  "performs (containerCommand c cmds) w (snd (destroyContainer sys c w))"
proof -
  have "performs (containerCommand c cmds) w
          (snd (case perform sys (Exec ''docker'' [''stop'', c]) w of
                  (Inl err, w1) \<Rightarrow> (Inl err, w1)
                | (Inr u, w1) \<Rightarrow>
                    (case perform sys (Exec ''docker'' [''rm'', c]) w1 of
                       (Inl err, w2) \<Rightarrow> (Inl err, w2)
                     | (Inr v, w2) \<Rightarrow> (Inr (), w2))))"
    apply (rule performs_case)
     apply (simp add: containerCommand_def)
    apply (simp only: snd_case_result)
    apply (rule performs_perform)
    apply (simp add: containerCommand_def)
    done
  then show ?thesis unfolding destroyContainer_def runCommand_def .
qed

lemma performs_runInContainer:
  "performs (containerCommand c cmds) w (snd (runInContainer sys c cmds w))"
proof -
  have "performs (containerCommand c all) w (snd (runInContainer sys c cmds w))"
    if "set cmds \<subseteq> set all" for all
    using that
  proof (induction cmds arbitrary: w)
    case Nil
    then show ?case by (simp add: performs_destroyContainer)
  next
    case (Cons args cmds)
    have mine: "containerCommand c all (Exec ''docker'' args)"
      using Cons.prems by (simp add: containerCommand_def)
    have rest: "set cmds \<subseteq> set all" using Cons.prems by simp
    show ?case
    proof (cases "perform sys (Exec ''docker'' args) w")
      case (Pair res w1)
      have one: "performs (containerCommand c all) w w1"
        using performs_perform[where P="containerCommand c all" and w=w and sys=sys, OF mine] Pair
        by simp
      show ?thesis
      proof (cases res)
        case (Inl err)
        then show ?thesis
          using Pair performs_trans[OF one performs_destroyContainer[of c all w1 sys]]
          by (simp add: runCommand_def)
      next
        case (Inr u)
        then show ?thesis
          using Pair performs_trans[OF one Cons.IH[OF rest, of w1]] by (simp add: runCommand_def)
      qed
    qed
  qed
  then show ?thesis by blast
qed

lemma ExtractImage_performs:
  fixes w :: "'w world_scheme"
  shows "performs (\<lambda>a. a = MkdirAll destination \<or> a = CleanDirectory destination
                 \<or> a = Exec ''docker'' [''run'', ''-d'', ''--privileged'', ''--name'',
                                        extractingName name,
                                        (if length tag > 0 then name @ '':'' @ tag else name)]
                 \<or> containerCommand (extractingName name)
                      (extractSteps sys (extractingName name) destination) a)
     w (snd (ExtractImage sys name tag destination w))"
proof -
  let ?P = "\<lambda>a. a = MkdirAll destination \<or> a = CleanDirectory destination
                 \<or> a = Exec ''docker'' [''run'', ''-d'', ''--privileged'', ''--name'',
                                        extractingName name,
                                        (if length tag > 0 then name @ '':'' @ tag else name)]
                 \<or> containerCommand (extractingName name)
                      (extractSteps sys (extractingName name) destination) a"
  have tail: "performs ?P w1 (snd (case perform sys (CleanDirectory destination) w1 of
                (Inl err, w2) \<Rightarrow> (Inl err, w2)
              | (Inr v, w2) \<Rightarrow>
                  (case perform sys (Exec ''docker''
                          [''run'', ''-d'', ''--privileged'', ''--name'', extractingName name,
                           (if length tag > 0 then name @ '':'' @ tag else name)])
                          w2 of
                     (Inl err, w3) \<Rightarrow> (Inl err, w3)
                   | (Inr x, w3) \<Rightarrow>
                       runInContainer sys (extractingName name)
                         (extractSteps sys (extractingName name) destination) w3)))"
    for w1 :: "'w world_scheme"
    apply (rule performs_case)
     apply simp
    apply (rule performs_case)
     apply simp
    apply (rule performs_mono[OF performs_runInContainer])
    apply simp
    done
  show ?thesis
  proof (cases "destination \<notin> dirs w")
    case False
    then show ?thesis using tail[of w]
      unfolding ExtractImage_def Let_def runCommand_def by simp
  next
    case True
    have "performs ?P w (snd (case perform sys (MkdirAll destination) w of
              (Inl err, w1) \<Rightarrow> (Inl err, w1)
            | (Inr u, w1) \<Rightarrow>
               (case perform sys (CleanDirectory destination) w1 of
                (Inl err, w2) \<Rightarrow> (Inl err, w2)
              | (Inr v, w2) \<Rightarrow>
                  (case perform sys (Exec ''docker''
                          [''run'', ''-d'', ''--privileged'', ''--name'', extractingName name,
                           (if length tag > 0 then name @ '':'' @ tag else name)])
                          w2 of
                     (Inl err, w3) \<Rightarrow> (Inl err, w3)
                   | (Inr x, w3) \<Rightarrow>
                       runInContainer sys (extractingName name)
                         (extractSteps sys (extractingName name) destination) w3))))"
      apply (rule performs_case)
       apply simp
      apply (rule tail)
      done
    then show ?thesis using True
      unfolding ExtractImage_def Let_def runCommand_def by simp
  qed
qed

lemma BuildImageLayer_performs:
  fixes w :: "'w world_scheme"
  shows "performs (\<lambda>a. a = MkdirAll pc \<or> a = Exec ''docker'' (startArgs d bp pc)
                 \<or> containerCommand (buildingName d) (buildSteps d tags bp pc env) a)
     w (snd (BuildImageLayer sys d tags bp pc env w))"
proof -
  let ?P = "\<lambda>a. a = MkdirAll pc \<or> a = Exec ''docker'' (startArgs d bp pc)
                 \<or> containerCommand (buildingName d) (buildSteps d tags bp pc env) a"
  have tail: "performs ?P w1 (snd (case perform sys (Exec ''docker'' (startArgs d bp pc)) w1 of
             (Inl err, w2) \<Rightarrow> (Inl err, w2)
           | (Inr v, w2) \<Rightarrow>
               runInContainer sys (buildingName d) (buildSteps d tags bp pc env) w2))"
    for w1 :: "'w world_scheme"
    apply (rule performs_case)
     apply simp
    apply (rule performs_mono[OF performs_runInContainer])
    apply simp
    done
  show ?thesis
  proof (cases "length pc > 0 \<and> pc \<notin> dirs w")
    case False
    show ?thesis
      unfolding BuildImageLayer_def if_not_P[OF False] runCommand_def
      using tail[of w] by simp
  next
    case True
    have "performs ?P w (snd (case perform sys (MkdirAll pc) w of
              (Inl err, w1) \<Rightarrow> (Inl err, w1)
            | (Inr u, w1) \<Rightarrow>
               (case perform sys (Exec ''docker'' (startArgs d bp pc)) w1 of
                 (Inl err, w2) \<Rightarrow> (Inl err, w2)
               | (Inr v, w2) \<Rightarrow>
                  runInContainer sys (buildingName d) (buildSteps d tags bp pc env) w2)))"
      apply (rule performs_case)
       apply simp
      apply (rule tail)
      done
    then show ?thesis
      unfolding BuildImageLayer_def if_P[OF True] runCommand_def by simp
  qed
qed

lemma length_le_concat: "s \<in> set ids \<Longrightarrow> length s \<le> length (concat ids)"
  by (induction ids) auto

lemma exampleRuntime_fresh: "\<forall>ids. generate exampleRuntime ids \<notin> set ids"
proof
  fix ids :: "string list"
  have "length s < length (generate exampleRuntime ids)" if "s \<in> set ids" for s
    using length_le_concat[OF that] by (simp add: exampleRuntime_def)
  then show "generate exampleRuntime ids \<notin> set ids" by blast
qed

lemmas session_simps = SessionExtractImage_def WithTempMount_def copyPhase_def copyVisited_def
  deferred_def NewID_def perform_def effect_def dirsEffect_def filesEffect_def IsDir_def Let_def

lemma example_session:
  fixes w :: session_world
  shows "newTrace w (snd (SessionExtractImage exampleRuntime ''myimage'' ''/tmp/out'' w))
         = [(WithLease, Inr ()),
            (GetImage ''myimage'', Inr ()),
            (NewWorkspace [], Inr ()),
            (CreateTempMounts ''/tmp/workspace'', Inr ()),
            (CreateSnapshot (''k'' @ concat (issued w)) ''myimage'', Inr ()),
            (RunContainer ''myimage'' (''k'' @ concat (issued w)), Inr ()),
            (Mounts (''k'' @ concat (issued w)), Inr ()),
            (TempMount (''k'' @ concat (issued w)), Inr ()),
            (CopyFile ''/mnt/extract/etc/hostname'' ''/tmp/out/etc/hostname'', Inr ()),
            (CopyFile ''/mnt/extract/etc/localtime'' ''/tmp/out/etc/localtime'', Inr ()),
            (Unmount ''/mnt'', Inr ()),
            (DeleteSnapshot (''k'' @ concat (issued w)), Inr ()),
            (DestroyWorkspace ''/tmp/workspace'', Inr ()),
            (ReleaseLease, Inr ())]"
    and "issued (snd (SessionExtractImage exampleRuntime ''myimage'' ''/tmp/out'' w))
         = issued w @ [''k'' @ concat (issued w)]"
  by (simp_all add: session_simps exampleRuntime_def mountedFiles_def newTrace_def)

text \<open>
  C4. In \<open>BuildImageLayer\<close>, when a step after the start of the container (an
  \<open>exec\<close>, the \<open>commit\<close> or a \<open>tag\<close>) fails, the error returned is the error of
  that step, also when the teardown fails in its turn, and \<open>destroyContainer\<close> has been
  called exactly once by the time the function returns.
\<close>

theorem BuildImageLayer_failure_teardown:
  assumes "(Exec ''docker'' args, Inl err)
             \<in> set (newTrace w (snd (BuildImageLayer sys d tags bp pc env w)))"
    and "isStep args"
  shows "fst (BuildImageLayer sys d tags bp pc env w) = Inl err
       \<and> destroyCalls (buildingName d)
           (newTrace w (snd (BuildImageLayer sys d tags bp pc env w))) = 1"
proof -
  obtain h where h: "trace (snd (BuildImageLayer sys d tags bp pc env w)) = trace w @ h"
    "primarySurfaced (buildingName d) (fst (BuildImageLayer sys d tags bp pc env w)) h"
    using BuildImageLayer_trace by blast
  have "newTrace w (snd (BuildImageLayer sys d tags bp pc env w)) = h"
    by (simp add: newTrace_def h(1))
  then show ?thesis using assms h(2) unfolding primarySurfaced_def by metis
qed

theorem BuildImageLayer_failure_teardown_witness:
  "(Exec ''docker'' [''commit'', ''darch-building-base'', ''base''],
      Inl (SystemError ''commit failed''))
     \<in> set (newTrace emptyWorld (snd (BuildImageLayer failingSystem
              (mkImage ''base'' ''external:os/base'') [] [] [] [] emptyWorld)))
   \<and> isStep [''commit'', ''darch-building-base'', ''base'']
   \<and> (Exec ''docker'' [''stop'', ''darch-building-base''], Inl (SystemError ''stop failed''))
     \<in> set (newTrace emptyWorld (snd (BuildImageLayer failingSystem
              (mkImage ''base'' ''external:os/base'') [] [] [] [] emptyWorld)))
   \<and> fst (BuildImageLayer failingSystem (mkImage ''base'' ''external:os/base'') [] [] [] []
            emptyWorld) = Inl (SystemError ''commit failed'')
   \<and> destroyCalls (buildingName (mkImage ''base'' ''external:os/base''))
        (newTrace emptyWorld (snd (BuildImageLayer failingSystem
              (mkImage ''base'' ''external:os/base'') [] [] [] [] emptyWorld))) = 1"
proof -
  have mem: "(Exec ''docker'' [''commit'', ''darch-building-base'', ''base''],
      Inl (SystemError ''commit failed''))
     \<in> set (newTrace emptyWorld (snd (BuildImageLayer failingSystem
              (mkImage ''base'' ''external:os/base'') [] [] [] [] emptyWorld)))"
    unfolding failing_build by (simp add: newTrace_def emptyWorld_def)
  have stop: "(Exec ''docker'' [''stop'', ''darch-building-base''], Inl (SystemError ''stop failed''))
     \<in> set (newTrace emptyWorld (snd (BuildImageLayer failingSystem
              (mkImage ''base'' ''external:os/base'') [] [] [] [] emptyWorld)))"
    unfolding failing_build by (simp add: newTrace_def emptyWorld_def)
  have step: "isStep [''commit'', ''darch-building-base'', ''base'']"
    by (simp add: isStep_def)
  show ?thesis
    using BuildImageLayer_failure_teardown[OF mem step] mem step stop by blast
qed

text \<open>
  C5. With the build prefix \<open>darch-\<close> the container is committed as \<open>darch-base\<close>,
  but the tag \<open>darch-base:latest\<close> is put on the image called \<open>base\<close>: the source
  of \<open>docker tag\<close> is \<open>imageDefinition.Name\<close> without the prefix, not the committed
  artifact.
\<close>

theorem tag_source_lacks_buildPrefix:
  "set (newTrace emptyWorld (snd (BuildImageLayer obligingSystem
          (mkImage ''base'' ''external:os/base'') [''latest''] ''darch-'' [] [] emptyWorld)))
     \<inter> {entry. \<exists>args. fst entry = Exec ''docker'' (''commit'' # args)
                      \<or> fst entry = Exec ''docker'' (''tag'' # args)}
   = {(Exec ''docker'' [''commit'', ''darch-building-base'', ''darch-base''], Inr ()),
      (Exec ''docker'' [''tag'', ''base'', ''darch-base:latest''], Inr ())}"
  by (auto simp: run_simps obligingSystem_def emptyWorld_def mkImage_def newTrace_def)

text \<open>
  C7. Every call of \<open>ExtractImage\<close> that reaches a docker command has first created
  the destination directory if it did not exist and then cleaned it, both successfully;
  after a successful call the destination exists and holds, beneath it, nothing but the
  files the call copied out of the container; and a second successful call on the
  resulting host, the backend answering \<open>docker cp\<close> with the same contents, leaves
  files and directories exactly as the first call left them.
\<close>

theorem ExtractImage_clears_then_writes:
  fixes sys :: "'s system_scheme" and name tag destination :: string
    and w0 :: "'w world_scheme"
  defines "r1 \<equiv> ExtractImage sys name tag destination w0"
  defines "r2 \<equiv> ExtractImage sys name tag destination (snd r1)"
  shows "((\<exists>args r. (Exec ''docker'' args, r) \<in> set (newTrace w0 (snd r1))) \<longrightarrow>
            (\<exists>rest. newTrace w0 (snd r1)
                     = (if destination \<in> dirs w0 then [] else [(MkdirAll destination, Inr ())])
                       @ (CleanDirectory destination, Inr ()) # rest))
       \<and> (fst r1 = Inr () \<longrightarrow>
            destination \<in> dirs (snd r1)
            \<and> (\<forall>p. beneath sys destination p \<longrightarrow>
                   files (snd r1) p = written sys name destination Map.empty p))
       \<and> (fst r1 = Inr () \<and> fst r2 = Inr () \<longrightarrow>
            files (snd r2) = files (snd r1) \<and> dirs (snd r2) = dirs (snd r1))"
proof (intro conjI impI)
  assume "\<exists>args r. (Exec ''docker'' args, r) \<in> set (newTrace w0 (snd r1))"
  then show "\<exists>rest. newTrace w0 (snd r1)
                     = (if destination \<in> dirs w0 then [] else [(MkdirAll destination, Inr ())])
                       @ (CleanDirectory destination, Inr ()) # rest"
    using ExtractImage_trace[of w0 sys name tag destination] unfolding r1_def by blast
next
  assume "fst r1 = Inr ()"
  then have ok: "ExtractImage sys name tag destination w0 = (Inr (), snd r1)"
    unfolding r1_def by (simp add: prod_eq_iff)
  show "destination \<in> dirs (snd r1)"
    unfolding ExtractImage_ok(1)[OF ok] by simp
  show "\<forall>p. beneath sys destination p \<longrightarrow>
          files (snd r1) p = written sys name destination Map.empty p"
    unfolding ExtractImage_ok(2)[OF ok] by (simp add: written_def)
next
  assume both: "fst r1 = Inr () \<and> fst r2 = Inr ()"
  then have ok1: "ExtractImage sys name tag destination w0 = (Inr (), snd r1)"
    unfolding r1_def by (simp add: prod_eq_iff)
  from both have ok2: "ExtractImage sys name tag destination (snd r1) = (Inr (), snd r2)"
    unfolding r2_def by (simp add: prod_eq_iff)
  show "files (snd r2) = files (snd r1)"
    unfolding ExtractImage_ok(2)[OF ok2] unfolding ExtractImage_ok(2)[OF ok1]
    by (rule written_clean_idem)
  show "dirs (snd r2) = dirs (snd r1)"
    unfolding ExtractImage_ok(1)[OF ok2] unfolding ExtractImage_ok(1)[OF ok1] by auto
qed

theorem ExtractImage_clears_then_writes_witness:
  "fst (ExtractImage obligingSystem ''myimage'' [] ''/out'' staleWorld) = Inr ()
   \<and> fst (ExtractImage obligingSystem ''myimage'' [] ''/out''
            (snd (ExtractImage obligingSystem ''myimage'' [] ''/out'' staleWorld))) = Inr ()
   \<and> (\<exists>args r. (Exec ''docker'' args, r)
          \<in> set (newTrace staleWorld
                    (snd (ExtractImage obligingSystem ''myimage'' [] ''/out'' staleWorld))))
   \<and> beneath obligingSystem ''/out'' ''/out/stale''
   \<and> files staleWorld ''/out/stale'' = Some ''left over''
   \<and> files (snd (ExtractImage obligingSystem ''myimage'' [] ''/out'' staleWorld)) ''/out/stale''
       = None
   \<and> ''/out'' \<in> dirs (snd (ExtractImage obligingSystem ''myimage'' [] ''/out'' staleWorld))
   \<and> (\<exists>rest. newTrace staleWorld
                 (snd (ExtractImage obligingSystem ''myimage'' [] ''/out'' staleWorld))
               = (CleanDirectory ''/out'', Inr ()) # rest)
   \<and> files (snd (ExtractImage obligingSystem ''myimage'' [] ''/out''
                   (snd (ExtractImage obligingSystem ''myimage'' [] ''/out'' staleWorld))))
       = files (snd (ExtractImage obligingSystem ''myimage'' [] ''/out'' staleWorld))
   \<and> dirs (snd (ExtractImage obligingSystem ''myimage'' [] ''/out''
                   (snd (ExtractImage obligingSystem ''myimage'' [] ''/out'' staleWorld))))
       = dirs (snd (ExtractImage obligingSystem ''myimage'' [] ''/out'' staleWorld))"
proof -
  note main = ExtractImage_clears_then_writes[where sys=obligingSystem and name="''myimage''"
      and tag="[]" and destination="''/out''" and ?w0.0=staleWorld]
  have docker: "\<exists>args r. (Exec ''docker'' args, r)
          \<in> set (newTrace staleWorld
                    (snd (ExtractImage obligingSystem ''myimage'' [] ''/out'' staleWorld)))"
    unfolding first_extract_trace extractionLog_def by auto
  have inside: "beneath obligingSystem ''/out'' ''/out/stale''"
    by (simp add: obligingSystem_def)
  have before: "files staleWorld ''/out/stale'' = Some ''left over''"
    by (simp add: staleWorld_def)
  have unwritten: "written obligingSystem ''myimage'' ''/out'' Map.empty ''/out/stale'' = None"
    by (simp add: written_def obligingSystem_def)
  have there: "''/out'' \<in> dirs staleWorld" by (simp add: staleWorld_def)
  note cleared = main[THEN conjunct2, THEN conjunct1, THEN mp, OF first_extract_ok]
  have gone: "files (snd (ExtractImage obligingSystem ''myimage'' [] ''/out'' staleWorld))
                ''/out/stale'' = None"
    using cleared[THEN conjunct2, THEN spec, THEN mp, OF inside] unwritten by simp
  have order: "\<exists>rest. newTrace staleWorld
                 (snd (ExtractImage obligingSystem ''myimage'' [] ''/out'' staleWorld))
               = (CleanDirectory ''/out'', Inr ()) # rest"
    using main[THEN conjunct1, THEN mp, OF docker] there by simp
  note same = main[THEN conjunct2, THEN conjunct2, THEN mp,
      OF conjI[OF first_extract_ok second_extract_ok]]
  show ?thesis
    by (intro conjI first_extract_ok second_extract_ok docker inside before gone
        cleared[THEN conjunct1] order same[THEN conjunct1] same[THEN conjunct2])
qed

text \<open>
  C8 (as the code has it). During the copy phase every \<open>CopyFile\<close> is for an entry
  that the walk reported without error, that is not a directory and whose path has the
  staging path \<open>path.Join(root, "extract")\<close> as a prefix, and its destination is
  \<open>path.Join\<close> of the destination and the path with that prefix cut off; a directory,
  or a path without the prefix, is passed over without any action and the walk goes on.
  The test is \<open>!IsDir()\<close>: an entry that is neither a directory nor a regular file is
  copied as well.
\<close>

theorem copyPhase_copies_non_directories:
  fixes rt :: runtime and destination root :: string and w :: session_world
  defines "srcDir \<equiv> Join rt root ''extract''"
  shows "(\<forall>e \<in> set (newTrace w (snd (copyPhase rt destination root w))).
            \<exists>path f. (path, f, Inr ()) \<in> set (walkEntries rt (trace w) srcDir)
                     \<and> \<not> IsDir f \<and> prefix srcDir path
                     \<and> fst e = CopyFile path (Join rt destination (drop (length srcDir) path)))
       \<and> (\<forall>path f v. IsDir f \<or> \<not> prefix srcDir path \<longrightarrow>
             copyVisited rt srcDir destination (path, f, Inr ()) v = (Inr (), v))"
proof
  obtain h where h: "trace (snd (copyPhase rt destination root w)) = trace w @ h"
    "\<forall>e \<in> set h. copiedFrom rt srcDir destination (walkEntries rt (trace w) srcDir) (fst e)"
    using Walk_copies[of rt srcDir destination "walkEntries rt (trace w) srcDir" w]
    unfolding copyPhase_def Let_def srcDir_def by blast
  have "newTrace w (snd (copyPhase rt destination root w)) = h"
    by (simp add: newTrace_def h(1))
  then show "\<forall>e \<in> set (newTrace w (snd (copyPhase rt destination root w))).
            \<exists>path f. (path, f, Inr ()) \<in> set (walkEntries rt (trace w) srcDir)
                     \<and> \<not> IsDir f \<and> prefix srcDir path
                     \<and> fst e = CopyFile path (Join rt destination (drop (length srcDir) path))"
    using h(2) unfolding copiedFrom_def by simp
  show "\<forall>path f v. IsDir f \<or> \<not> prefix srcDir path \<longrightarrow>
             copyVisited rt srcDir destination (path, f, Inr ()) v = (Inr (), v)"
    by (auto simp: copyVisited_def)
qed

theorem copyPhase_copies_non_directories_witness:
  "(CopyFile ''/mnt/extract/etc/hostname'' ''/tmp/out/etc/hostname'', Inr ())
     \<in> set (newTrace freshSession
              (snd (copyPhase exampleRuntime ''/tmp/out'' ''/mnt'' freshSession)))
   \<and> (\<exists>path f. (path, f, Inr ())
                   \<in> set (walkEntries exampleRuntime (trace freshSession)
                             (Join exampleRuntime ''/mnt'' ''extract''))
          \<and> \<not> IsDir f \<and> prefix (Join exampleRuntime ''/mnt'' ''extract'') path
          \<and> CopyFile ''/mnt/extract/etc/hostname'' ''/tmp/out/etc/hostname''
              = CopyFile path (Join exampleRuntime ''/tmp/out''
                                 (drop (length (Join exampleRuntime ''/mnt'' ''extract'')) path)))
   \<and> IsDir \<lparr> BaseName = ''etc'', Mode = ModeDir \<rparr>
   \<and> copyVisited exampleRuntime (Join exampleRuntime ''/mnt'' ''extract'') ''/tmp/out''
         (''/mnt/extract/etc'', \<lparr> BaseName = ''etc'', Mode = ModeDir \<rparr>, Inr ()) freshSession
       = (Inr (), freshSession)"
proof -
  note main = copyPhase_copies_non_directories[where rt=exampleRuntime
      and destination="''/tmp/out''" and root="''/mnt''" and w=freshSession]
  have mem: "(CopyFile ''/mnt/extract/etc/hostname'' ''/tmp/out/etc/hostname'', Inr ())
     \<in> set (newTrace freshSession
              (snd (copyPhase exampleRuntime ''/tmp/out'' ''/mnt'' freshSession)))"
    unfolding example_copyPhase by simp
  have dir: "IsDir \<lparr> BaseName = ''etc'', Mode = ModeDir \<rparr>" by (simp add: IsDir_def)
  have a: "\<exists>path f. (path, f, Inr ())
                   \<in> set (walkEntries exampleRuntime (trace freshSession)
                             (Join exampleRuntime ''/mnt'' ''extract''))
          \<and> \<not> IsDir f \<and> prefix (Join exampleRuntime ''/mnt'' ''extract'') path
          \<and> CopyFile ''/mnt/extract/etc/hostname'' ''/tmp/out/etc/hostname''
              = CopyFile path (Join exampleRuntime ''/tmp/out''
                                 (drop (length (Join exampleRuntime ''/mnt'' ''extract'')) path))"
    using main[THEN conjunct1, THEN bspec, OF mem] by simp
  have b: "copyVisited exampleRuntime (Join exampleRuntime ''/mnt'' ''extract'') ''/tmp/out''
         (''/mnt/extract/etc'', \<lparr> BaseName = ''etc'', Mode = ModeDir \<rparr>, Inr ()) freshSession
       = (Inr (), freshSession)"
    using main[THEN conjunct2, THEN spec, THEN spec, THEN spec, THEN mp, OF disjI1, OF dir] .
  show ?thesis by (intro conjI mem a dir b)
qed

text \<open>
  C8, the claim as stated, fails: a symbolic link beneath the staging path is not a
  regular file, and it is copied.
\<close>

theorem symlink_is_copied:
  "(CopyFile ''/mnt/extract/etc/localtime'' ''/tmp/out/etc/localtime'', Inr ())
     \<in> set (newTrace freshSession
              (snd (copyPhase exampleRuntime ''/tmp/out'' ''/mnt'' freshSession)))
   \<and> (''/mnt/extract/etc/localtime'', \<lparr> BaseName = ''localtime'', Mode = ModeSymlink \<rparr>, Inr ())
       \<in> set (walkEntries exampleRuntime (trace freshSession)
                 (Join exampleRuntime ''/mnt'' ''extract''))
   \<and> \<not> IsRegular \<lparr> BaseName = ''localtime'', Mode = ModeSymlink \<rparr>
   \<and> \<not> IsDir \<lparr> BaseName = ''localtime'', Mode = ModeSymlink \<rparr>"
  unfolding example_copyPhase
  by (simp add: exampleRuntime_def mountedFiles_def IsRegular_def IsDir_def)

text \<open>
  C9 (as the code has it). The containerd extraction keys its snapshot by the identifier
  that \<open>utils.NewID\<close> returns, so with a generator that never repeats an issued
  identifier two such extractions, one after the other, never create their snapshots
  under the same key, whatever the images. The docker build and the docker extraction
  name their container \<open>darch-building-\<close> followed by the image name, and
  \<open>darch-extracting-\<close> followed by the image name without its slashes: a function of
  the image name alone.
\<close>

theorem snapshot_keys_fresh_container_names_fixed:
  fixes rt :: runtime and v :: session_world and fullName1 dest1 fullName2 dest2 :: string
    and sys :: "'s system_scheme" and w :: "'w world_scheme"
    and name tag destination bp pc :: string and d :: ImageDefinition
    and tags :: "string list" and env :: "(string \<times> string) list"
  defines "s1 \<equiv> SessionExtractImage rt fullName1 dest1 v"
  defines "s2 \<equiv> SessionExtractImage rt fullName2 dest2 (snd s1)"
  shows "(\<forall>k i r. (CreateSnapshot k i, r) \<in> set (newTrace v (snd s1))
            \<longrightarrow> k = generate rt (issued v))
       \<and> ((\<forall>ids. generate rt ids \<notin> set ids) \<longrightarrow>
            (\<forall>k1 k2 i1 i2 r1 r2.
               (CreateSnapshot k1 i1, r1) \<in> set (newTrace v (snd s1))
               \<and> (CreateSnapshot k2 i2, r2) \<in> set (newTrace (snd s1) (snd s2))
               \<longrightarrow> k1 \<noteq> k2))
       \<and> (\<forall>args r. (Exec ''docker'' (''run'' # args), r)
                      \<in> set (newTrace w (snd (ExtractImage sys name tag destination w)))
            \<longrightarrow> (\<exists>img. args = [''-d'', ''--privileged'', ''--name'', extractingName name, img]))
       \<and> (\<forall>args r. (Exec ''docker'' (''run'' # args), r)
                      \<in> set (newTrace w (snd (BuildImageLayer sys d tags bp pc env w)))
            \<longrightarrow> (\<exists>pre parent. args = pre @ [''--name'', buildingName d, parent]))"
proof (intro conjI allI impI)
  obtain h1 where h1: "trace (snd s1) = trace v @ h1"
    "\<forall>e \<in> set h1. keyedBy (generate rt (issued v)) (fst e)"
    "issued (snd s1) = issued v \<and> (\<forall>e \<in> set h1. noCreate (fst e))
       \<or> issued (snd s1) = issued v @ [generate rt (issued v)]"
    using SessionExtractImage_grown[of rt v fullName1 dest1] unfolding grown_def s1_def by blast
  have n1: "newTrace v (snd s1) = h1" by (simp add: newTrace_def h1(1))
  obtain h2 where h2: "trace (snd s2) = trace (snd s1) @ h2"
    "\<forall>e \<in> set h2. keyedBy (generate rt (issued (snd s1))) (fst e)"
    using SessionExtractImage_grown[of rt "snd s1" fullName2 dest2]
    unfolding grown_def s2_def by blast
  have n2: "newTrace (snd s1) (snd s2) = h2" by (simp add: newTrace_def h2(1))
  have key1: "k = generate rt (issued v) \<and> k \<in> set (issued (snd s1))"
    if "(CreateSnapshot k i, r) \<in> set h1" for k i r
  proof -
    have a: "k = generate rt (issued v)" using h1(2) that by (force simp: keyedBy_def)
    have "\<not> noCreate (fst (CreateSnapshot k i, r))" by (simp add: noCreate_def)
    then have "issued (snd s1) = issued v @ [generate rt (issued v)]" using h1(3) that by blast
    then show ?thesis using a by simp
  qed
  {
    fix k i r
    assume "(CreateSnapshot k i, r) \<in> set (newTrace v (snd s1))"
    then show "k = generate rt (issued v)" using key1 unfolding n1 by blast
  next
    fix k1 k2 i1 i2 r1 r2
    assume fresh: "\<forall>ids. generate rt ids \<notin> set ids"
      and both: "(CreateSnapshot k1 i1, r1) \<in> set (newTrace v (snd s1))
               \<and> (CreateSnapshot k2 i2, r2) \<in> set (newTrace (snd s1) (snd s2))"
    have "k1 \<in> set (issued (snd s1))" using both key1 unfolding n1 by blast
    moreover have "k2 = generate rt (issued (snd s1))"
      using both h2(2) unfolding n2 by (force simp: keyedBy_def)
    ultimately show "k1 \<noteq> k2" using fresh by blast
  next
    fix args r
    assume run: "(Exec ''docker'' (''run'' # args), r)
                   \<in> set (newTrace w (snd (ExtractImage sys name tag destination w)))"
    obtain h where h: "trace (snd (ExtractImage sys name tag destination w)) = trace w @ h"
      "\<forall>e \<in> set h. fst e = MkdirAll destination \<or> fst e = CleanDirectory destination
                 \<or> fst e = Exec ''docker'' [''run'', ''-d'', ''--privileged'', ''--name'',
                                        extractingName name,
                                        (if length tag > 0 then name @ '':'' @ tag else name)]
                 \<or> containerCommand (extractingName name)
                      (extractSteps sys (extractingName name) destination) (fst e)"
      using ExtractImage_performs[of destination name tag sys w] unfolding performs_def by blast
    have "(Exec ''docker'' (''run'' # args), r) \<in> set h"
      using run by (simp add: newTrace_def h(1))
    then have "Exec ''docker'' (''run'' # args)
                 = Exec ''docker'' [''run'', ''-d'', ''--privileged'', ''--name'',
                                    extractingName name,
                                    (if length tag > 0 then name @ '':'' @ tag else name)]
               \<or> containerCommand (extractingName name)
                    (extractSteps sys (extractingName name) destination)
                    (Exec ''docker'' (''run'' # args))"
      using h(2) by fastforce
    then show "\<exists>img. args = [''-d'', ''--privileged'', ''--name'', extractingName name, img]"
      by (auto simp: containerCommand_def extractSteps_def)
  next
    fix args r
    assume run: "(Exec ''docker'' (''run'' # args), r)
                   \<in> set (newTrace w (snd (BuildImageLayer sys d tags bp pc env w)))"
    obtain h where h: "trace (snd (BuildImageLayer sys d tags bp pc env w)) = trace w @ h"
      "\<forall>e \<in> set h. fst e = MkdirAll pc \<or> fst e = Exec ''docker'' (startArgs d bp pc)
                 \<or> containerCommand (buildingName d) (buildSteps d tags bp pc env) (fst e)"
      using BuildImageLayer_performs[of pc d bp tags env w sys] unfolding performs_def by blast
    have "(Exec ''docker'' (''run'' # args), r) \<in> set h"
      using run by (simp add: newTrace_def h(1))
    then have "Exec ''docker'' (''run'' # args) = Exec ''docker'' (startArgs d bp pc)
               \<or> containerCommand (buildingName d) (buildSteps d tags bp pc env)
                    (Exec ''docker'' (''run'' # args))"
      using h(2) by fastforce
    moreover have "\<not> containerCommand (buildingName d) (buildSteps d tags bp pc env)
                      (Exec ''docker'' (''run'' # args))"
      using buildSteps_are_steps[of d tags bp pc env]
      by (auto simp: containerCommand_def isStep_def)
    ultimately have "''run'' # args = startArgs d bp pc" by simp
    then show "\<exists>pre parent. args = pre @ [''--name'', buildingName d, parent]"
      by (auto simp: startArgs_def Let_def split: if_splits)
  }
qed

theorem snapshot_keys_fresh_container_names_fixed_witness:
  "(CreateSnapshot ''k'' ''myimage'', Inr ())
     \<in> set (newTrace freshSession
              (snd (SessionExtractImage exampleRuntime ''myimage'' ''/tmp/out'' freshSession)))
   \<and> (CreateSnapshot ''kk'' ''myimage'', Inr ())
     \<in> set (newTrace
              (snd (SessionExtractImage exampleRuntime ''myimage'' ''/tmp/out'' freshSession))
              (snd (SessionExtractImage exampleRuntime ''myimage'' ''/tmp/out''
                      (snd (SessionExtractImage exampleRuntime ''myimage'' ''/tmp/out''
                              freshSession)))))
   \<and> ''k'' = generate exampleRuntime (issued freshSession)
   \<and> ''k'' \<noteq> ''kk''
   \<and> (Exec ''docker'' [''run'', ''-d'', ''--privileged'', ''--name'', ''darch-extracting-myimage'',
                       ''myimage''], Inr ())
     \<in> set (newTrace staleWorld
              (snd (ExtractImage obligingSystem ''myimage'' [] ''/out'' staleWorld)))
   \<and> (\<exists>img. [''-d'', ''--privileged'', ''--name'', ''darch-extracting-myimage'', ''myimage'']
             = [''-d'', ''--privileged'', ''--name'', extractingName ''myimage'', img])
   \<and> (Exec ''docker'' [''run'', ''-d'', ''-v'', ''/images:/images'', ''--privileged'', ''--name'',
                       ''darch-building-base'', ''os/base''], Inr ())
     \<in> set (newTrace emptyWorld
              (snd (BuildImageLayer failingSystem (mkImage ''base'' ''external:os/base'')
                      [] [] [] [] emptyWorld)))
   \<and> (\<exists>pre parent. [''-d'', ''-v'', ''/images:/images'', ''--privileged'', ''--name'',
                     ''darch-building-base'', ''os/base'']
             = pre @ [''--name'', buildingName (mkImage ''base'' ''external:os/base''), parent])"
proof -
  let ?s1 = "SessionExtractImage exampleRuntime ''myimage'' ''/tmp/out'' freshSession"
  let ?s2 = "SessionExtractImage exampleRuntime ''myimage'' ''/tmp/out'' (snd ?s1)"
  note session = snapshot_keys_fresh_container_names_fixed[where rt=exampleRuntime
      and v=freshSession and ?fullName1.0="''myimage''" and ?dest1.0="''/tmp/out''"
      and ?fullName2.0="''myimage''" and ?dest2.0="''/tmp/out''"
      and sys=obligingSystem and w=staleWorld and name="''myimage''" and tag="[]"
      and destination="''/out''"]
  note build = snapshot_keys_fresh_container_names_fixed[where rt=exampleRuntime
      and v=freshSession and sys=failingSystem and w=emptyWorld
      and d="mkImage ''base'' ''external:os/base''" and tags="[]" and bp="[]" and pc="[]"
      and env="[]"]
  have c1: "(CreateSnapshot ''k'' ''myimage'', Inr ()) \<in> set (newTrace freshSession (snd ?s1))"
    unfolding example_session by (simp add: freshSession_def)
  have i1: "issued (snd ?s1) = [''k'']"
    unfolding example_session by (simp add: freshSession_def)
  have c2: "(CreateSnapshot ''kk'' ''myimage'', Inr ()) \<in> set (newTrace (snd ?s1) (snd ?s2))"
    unfolding example_session(1)[of "snd ?s1"] i1 by simp
  have key: "''k'' = generate exampleRuntime (issued freshSession)"
    using session[THEN conjunct1, THEN spec, THEN spec, THEN spec, THEN mp, OF c1] .
  have differ: "''k'' \<noteq> ''kk''"
    using session[THEN conjunct2, THEN conjunct1, THEN mp, OF exampleRuntime_fresh,
        THEN spec, THEN spec, THEN spec, THEN spec, THEN spec, THEN spec, THEN mp,
        OF conjI[OF c1 c2]] .
  have e1: "(Exec ''docker'' [''run'', ''-d'', ''--privileged'', ''--name'',
                              ''darch-extracting-myimage'', ''myimage''], Inr ())
     \<in> set (newTrace staleWorld
              (snd (ExtractImage obligingSystem ''myimage'' [] ''/out'' staleWorld)))"
    unfolding first_extract_trace by (simp add: extractionLog_def)
  have named: "\<exists>img. [''-d'', ''--privileged'', ''--name'', ''darch-extracting-myimage'', ''myimage'']
             = [''-d'', ''--privileged'', ''--name'', extractingName ''myimage'', img]"
    using session[THEN conjunct2, THEN conjunct2, THEN conjunct1, THEN spec, THEN spec,
        THEN mp, OF e1] .
  have b1: "(Exec ''docker'' [''run'', ''-d'', ''-v'', ''/images:/images'', ''--privileged'',
                              ''--name'', ''darch-building-base'', ''os/base''], Inr ())
     \<in> set (newTrace emptyWorld
              (snd (BuildImageLayer failingSystem (mkImage ''base'' ''external:os/base'')
                      [] [] [] [] emptyWorld)))"
    unfolding failing_build by (simp add: newTrace_def emptyWorld_def)
  have built: "\<exists>pre parent. [''-d'', ''-v'', ''/images:/images'', ''--privileged'', ''--name'',
                     ''darch-building-base'', ''os/base'']
             = pre @ [''--name'', buildingName (mkImage ''base'' ''external:os/base''), parent]"
    using build[THEN conjunct2, THEN conjunct2, THEN conjunct2, THEN spec, THEN spec,
        THEN mp, OF b1] .
  show ?thesis by (intro conjI c1 c2 key differ e1 named b1 built)
qed

text \<open>
  C9, the claim as stated, fails: two docker extractions of the same image, one after the
  other, start their container under the same name.
\<close>

theorem same_container_name_twice:
  "(Exec ''docker'' [''run'', ''-d'', ''--privileged'', ''--name'', ''darch-extracting-myimage'',
                     ''myimage''], Inr ())
     \<in> set (newTrace staleWorld
              (snd (ExtractImage obligingSystem ''myimage'' [] ''/out'' staleWorld)))
   \<and> (Exec ''docker'' [''run'', ''-d'', ''--privileged'', ''--name'', ''darch-extracting-myimage'',
                       ''myimage''], Inr ())
     \<in> set (newTrace (snd (ExtractImage obligingSystem ''myimage'' [] ''/out'' staleWorld))
              (snd (ExtractImage obligingSystem ''myimage'' [] ''/out''
                      (snd (ExtractImage obligingSystem ''myimage'' [] ''/out'' staleWorld)))))"
  unfolding first_extract_trace second_extract_trace by (simp add: extractionLog_def)

end
